theory Spec2Isabelle
  imports Complex_Main "HOL-Library.FSet"
begin

section \<open>Python values used by the downloader\<close>

text \<open>
  The program is one Python module, \<^verbatim>\<open>download_signaturit.py\<close>. Python strings are
  modelled as \<^typ>\<open>string\<close>, Python integers as \<^typ>\<open>int\<close> or \<^typ>\<open>nat\<close> (they do
  not overflow), and every exception as a value of \<open>py_error\<close>.
\<close>

subsection \<open>Decimal rendering: \<^verbatim>\<open>str(n)\<close> and \<^verbatim>\<open>f"{n}"\<close> on integers\<close>

definition digit_char :: "nat \<Rightarrow> char" where
  "digit_char d = ''0123456789'' ! d"

function decimal :: "nat \<Rightarrow> string" where
  "decimal n = (if n < 10 then [digit_char n] else decimal (n div 10) @ [digit_char (n mod 10)])"
  by pat_completeness auto
termination
  by (relation "measure id") auto

declare decimal.simps [simp del]

definition py_str_int :: "int \<Rightarrow> string" where
  "py_str_int i = (if i < 0 then CHR ''-'' # decimal (nat (- i)) else decimal (nat i))"

text \<open>Reading a decimal numeral back; used only to show that \<open>decimal\<close> is injective.\<close>

definition digit_val :: "char \<Rightarrow> nat" where
  "digit_val c = of_char c - 48"

definition read_decimal :: "string \<Rightarrow> nat" where
  "read_decimal s = foldl (\<lambda>a c. 10 * a + digit_val c) 0 s"

subsection \<open>Dates: \<^verbatim>\<open>datetime.date\<close> and \<^verbatim>\<open>isoformat()\<close>\<close>

record date =
  d_year :: int
  d_month :: int
  d_day :: int

definition zero_pad :: "nat \<Rightarrow> string \<Rightarrow> string" where
  "zero_pad w s = replicate (w - length s) CHR ''0'' @ s"

text \<open>\<^verbatim>\<open>date.isoformat()\<close> prints \<^verbatim>\<open>%04d-%02d-%02d\<close>.\<close>

definition isoformat :: "date \<Rightarrow> string" where
  "isoformat d = zero_pad 4 (py_str_int (d_year d)) @ ''-'' @ zero_pad 2 (py_str_int (d_month d))
                 @ ''-'' @ zero_pad 2 (py_str_int (d_day d))"

text \<open>
  \<^verbatim>\<open>today_iso\<close> and \<^verbatim>\<open>build_date_range_for_year\<close> read the system clock through
  \<^verbatim>\<open>dt.date.today()\<close>; the model takes today's date as an argument.
\<close>

definition today_iso :: "date \<Rightarrow> string" where
  "today_iso today = isoformat today"

definition build_date_range_for_year :: "date \<Rightarrow> int \<Rightarrow> string \<times> string" where
  "build_date_range_for_year today year =
     (let since = py_str_int year @ ''-01-01'';
          current_year = d_year today;
          until = (if year = current_year then today_iso today else py_str_int year @ ''-12-31'')
      in (since, until))"

subsection \<open>Whitespace: what \<^verbatim>\<open>\s\<close> matches and \<^verbatim>\<open>str.strip()\<close> removes\<close>

text \<open>
  A \<^typ>\<open>char\<close> stands for a code point below 256. In that range Python's
  \<^verbatim>\<open>str.isspace\<close>, which both \<^verbatim>\<open>\s\<close> and \<^verbatim>\<open>strip()\<close> follow on \<^verbatim>\<open>str\<close>,
  holds for TAB, LF, VT, FF, CR, the separators 0x1C to 0x1F, the space, NEL (0x85)
  and the no-break space (0xA0).
\<close>

definition is_space :: "char \<Rightarrow> bool" where
  "is_space c = (c \<in> set [CHR 0x09, CHR 0x0A, CHR 0x0B, CHR 0x0C, CHR 0x0D, CHR 0x1C, CHR 0x1D,
                           CHR 0x1E, CHR 0x1F, CHR 0x20, CHR 0x85, CHR 0xA0])"

definition strip :: "string \<Rightarrow> string" where
  "strip s = rev (dropWhile is_space (rev (dropWhile is_space s)))"

section \<open>File names\<close>

subsection \<open>\<^verbatim>\<open>sanitize_filename\<close>\<close>

text \<open>The character class \<^verbatim>\<open>[\\/:*?\"<>|]\<close> of the first substitution.\<close>

definition forbidden :: "char \<Rightarrow> bool" where
  "forbidden c = (c \<in> set [CHR 0x5C, CHR ''/'', CHR '':'', CHR ''*'', CHR ''?'', CHR 0x22,
                             CHR ''<'', CHR ''>'', CHR ''|''])"

definition replace_forbidden :: "string \<Rightarrow> string" where
  "replace_forbidden name = map (\<lambda>c. if forbidden c then CHR ''_'' else c) name"

text \<open>\<^verbatim>\<open>re.sub(r"\s+", " ", name)\<close>: every maximal run of whitespace becomes one space.\<close>

function collapse_ws :: "string \<Rightarrow> string" where
  "collapse_ws [] = []"
| "collapse_ws (c # cs) =
     (if is_space c then CHR '' '' # collapse_ws (dropWhile is_space cs) else c # collapse_ws cs)"
  by pat_completeness auto
termination
  by (relation "measure length") (auto simp: le_imp_less_Suc length_dropWhile_le)

definition sanitize_filename :: "string \<Rightarrow> string" where
  "sanitize_filename name =
     (let name1 = replace_forbidden name;
          name2 = strip (collapse_ws name1)
      in if name2 = [] then ''document.pdf'' else name2)"

subsection \<open>\<^verbatim>\<open>os.path.splitext\<close>\<close>

text \<open>
  The library function, after \<^verbatim>\<open>genericpath._splitext\<close> with the separator \<^verbatim>\<open>/\<close>: the
  extension starts at the last dot of the last path component, unless only dots come
  before it in that component. On a name without \<^verbatim>\<open>/\<close> and \<^verbatim>\<open>\\<close>, the only
  names \<^verbatim>\<open>main\<close> passes, the POSIX and the Windows version agree.
\<close>

definition splitext :: "string \<Rightarrow> string \<times> string" where
  "splitext p =
     (let comp = rev (takeWhile (\<lambda>c. c \<noteq> CHR ''/'') (rev p));
          after_dot = rev (takeWhile (\<lambda>c. c \<noteq> CHR ''.'') (rev comp))
      in if CHR ''.'' \<notin> set comp then (p, [])
         else if \<forall>c \<in> set (take (length comp - length after_dot - 1) comp). c = CHR ''.''
         then (p, [])
         else (take (length p - length after_dot - 1) p, drop (length p - length after_dot - 1) p))"

subsection \<open>\<^verbatim>\<open>make_unique_filename\<close>\<close>

text \<open>
  The directory \<^verbatim>\<open>base_path\<close> is the finite set of the names that exist in it (files
  and directories alike, as \<^verbatim>\<open>Path.exists\<close> does not tell them apart); a path
  \<^verbatim>\<open>base_path / name\<close> is its \<open>name\<close>. \<^verbatim>\<open>f"{stem}_{counter}{ext}"\<close> is
  \<open>numbered stem ext counter\<close>.
\<close>

definition numbered :: "string \<Rightarrow> string \<Rightarrow> nat \<Rightarrow> string" where
  "numbered stem ext counter = stem @ ''_'' @ decimal counter @ ext"

section \<open>Decoded JSON\<close>

text \<open>
  What \<^verbatim>\<open>resp.json()\<close> returns. Python's \<^verbatim>\<open>None\<close> is \<open>JNull\<close>: a JSON \<^verbatim>\<open>null\<close>
  decodes to it and \<^verbatim>\<open>dict.get\<close> returns it for a missing key. A \<^verbatim>\<open>dict\<close> keeps its
  insertion order, so it is the list of its items (keys distinct). A float is kept as
  its \<^verbatim>\<open>repr\<close>: the program only formats it and tests it for zero.
\<close>

datatype json =
    JNull
  | JBool bool
  | JInt int
  | JFloat string
  | JStr string
  | JArr "json list"
  | JObj "(string \<times> json) list"

text \<open>\<^verbatim>\<open>d.get(key, default)\<close> on a dict.\<close>

definition dict_get :: "(string \<times> json) list \<Rightarrow> string \<Rightarrow> json \<Rightarrow> json" where
  "dict_get kvs key dflt = (case map_of kvs key of Some v \<Rightarrow> v | None \<Rightarrow> dflt)"

text \<open>Truth value of a decoded value, as \<^verbatim>\<open>if v\<close>, \<^verbatim>\<open>not v\<close> and \<^verbatim>\<open>v or d\<close> test it.\<close>

definition truthy :: "json \<Rightarrow> bool" where
  "truthy v =
     (case v of
        JNull \<Rightarrow> False
      | JBool b \<Rightarrow> b
      | JInt i \<Rightarrow> i \<noteq> 0
      | JFloat r \<Rightarrow> r \<noteq> ''0.0'' \<and> r \<noteq> ''-0.0''
      | JStr s \<Rightarrow> s \<noteq> []
      | JArr vs \<Rightarrow> vs \<noteq> []
      | JObj kvs \<Rightarrow> kvs \<noteq> [])"

text \<open>
  The exceptions the program raises or lets through. \<open>RequestException\<close> is whatever
  \<^verbatim>\<open>requests.get\<close> raises (connection error, timeout), with its message;
  \<open>JSONDecodeError\<close> is raised by \<^verbatim>\<open>resp.json()\<close> on a body that is not JSON;
  \<open>AttributeError\<close> and \<open>TypeError\<close> come from \<^verbatim>\<open>.get\<close>, iteration and \<^verbatim>\<open>re.sub\<close>
  on a value of the wrong type.
\<close>

datatype py_error =
    SystemExit string
  | RuntimeError string
  | RequestException string
  | JSONDecodeError
  | AttributeError
  | TypeError
  | UnboundLocalError

text \<open>\<^verbatim>\<open>v.get(key, default)\<close> on any decoded value: only a dict has the method.\<close>

definition py_get :: "json \<Rightarrow> string \<Rightarrow> json \<Rightarrow> py_error + json" where
  "py_get v key dflt = (case v of JObj kvs \<Rightarrow> Inr (dict_get kvs key dflt) | _ \<Rightarrow> Inl AttributeError)"

text \<open>
  What \<^verbatim>\<open>for x in v\<close> and \<^verbatim>\<open>list.extend(v)\<close> iterate over: the elements of a list, the
  keys of a dict, the characters of a string; anything else is not iterable.
\<close>

definition py_iter :: "json \<Rightarrow> py_error + json list" where
  "py_iter v =
     (case v of
        JArr vs \<Rightarrow> Inr vs
      | JObj kvs \<Rightarrow> Inr (map (\<lambda>kv. JStr (fst kv)) kvs)
      | JStr s \<Rightarrow> Inr (map (\<lambda>c. JStr [c]) s)
      | _ \<Rightarrow> Inl TypeError)"

text \<open>
  \<^verbatim>\<open>str(v)\<close>, as an f-string applies it. The \<^verbatim>\<open>repr\<close> of lists and dicts is the
  parameter \<open>fmt\<close>.
\<close>

definition py_str :: "(json \<Rightarrow> string) \<Rightarrow> json \<Rightarrow> string" where
  "py_str fmt v =
     (case v of
        JNull \<Rightarrow> ''None''
      | JBool b \<Rightarrow> (if b then ''True'' else ''False'')
      | JInt i \<Rightarrow> py_str_int i
      | JFloat r \<Rightarrow> r
      | JStr s \<Rightarrow> s
      | _ \<Rightarrow> fmt v)"

text \<open>\<^verbatim>\<open>sep.join(xs)\<close>.\<close>

fun join :: "string \<Rightarrow> string list \<Rightarrow> string" where
  "join sep [] = []"
| "join sep [x] = x"
| "join sep (x # y # ys) = x @ sep @ join sep (y # ys)"

section \<open>Signer emails\<close>

subsection \<open>The two regular expressions\<close>

text \<open>The class \<^verbatim>\<open>[^@\s]\<close>.\<close>

definition email_char :: "char \<Rightarrow> bool" where
  "email_char c = (c \<noteq> CHR ''@'' \<and> \<not> is_space c)"

text \<open>
  A run matched by \<^verbatim>\<open>[^@\s]+\.[^@\s]+\<close> as a whole: a dot with at least one character
  on each side.
\<close>

definition inner_dot :: "string \<Rightarrow> bool" where
  "inner_dot d = (CHR ''.'' \<in> set (butlast (tl d)))"

text \<open>
  \<^verbatim>\<open>re.match(r"^[^@\s]+@[^@\s]+\.[^@\s]+$", e2)\<close> on a stripped string. The first group
  can only end where the \<^verbatim>\<open>@\<close> stands, and all that follows must be one run with a dot
  inside (\<open>is_email_iff\<close> below states the language).
\<close>

definition is_email :: "string \<Rightarrow> bool" where
  "is_email s =
     (let local = takeWhile email_char s; rest = dropWhile email_char s
      in local \<noteq> [] \<and>
         (case rest of [] \<Rightarrow> False
          | c # domain \<Rightarrow> c = CHR ''@'' \<and> list_all email_char domain \<and> inner_dot domain))"

text \<open>
  One attempt of \<^verbatim>\<open>[^@\s]+@[^@\s]+\.[^@\s]+\<close> at the start of \<open>s\<close>: the greedy first
  group is the longest run, it must be followed by \<^verbatim>\<open>@\<close>, and the rest of the match is
  the longest run after it, which needs a dot inside. The result is the matched text and
  what is left to scan.
\<close>

definition match_email_at :: "string \<Rightarrow> (string \<times> string) option" where
  "match_email_at s =
     (let local = takeWhile email_char s; rest = dropWhile email_char s
      in if local = [] then None
         else (case rest of
                 [] \<Rightarrow> None
               | c # rest1 \<Rightarrow>
                   if c \<noteq> CHR ''@'' then None
                   else let domain = takeWhile email_char rest1;
                            remaining = dropWhile email_char rest1
                        in if inner_dot domain then Some (local @ CHR ''@'' # domain, remaining)
                           else None))"

section \<open>Facts about decimal rendering\<close>

lemma digit_val_digit_char: "d < 10 \<Longrightarrow> digit_val (digit_char d) = d"
proof -
  assume "d < 10"
  then have "d \<in> {0, 1, 2, 3, 4, 5, 6, 7, 8, 9}"
    by auto
  then show ?thesis
    by (auto simp: digit_val_def digit_char_def)
qed

lemma read_decimal_snoc: "read_decimal (s @ [c]) = 10 * read_decimal s + digit_val c"
  by (simp add: read_decimal_def)

lemma read_decimal_decimal: "read_decimal (decimal n) = n"
proof (induction n rule: decimal.induct)
  case (1 n)
  show ?case
  proof (cases "n < 10")
    case True
    then show ?thesis
      by (subst decimal.simps) (simp add: read_decimal_def digit_val_digit_char)
  next
    case False
    then have "read_decimal (decimal n) = 10 * (n div 10) + n mod 10"
      using "1.IH" by (subst decimal.simps) (simp add: read_decimal_snoc digit_val_digit_char)
    then show ?thesis by simp
  qed
qed

text \<open>
  The same digits computed on \<^typ>\<open>int\<close>, whose numerals are binary: the equations that
  evaluate \<open>decimal\<close> and \<open>py_str_int\<close> on concrete numbers.
\<close>

function digits_of :: "int \<Rightarrow> string" where
  "digits_of i =
     (if i < 10 then [digit_char (nat i)]
      else digits_of (i div 10) @ [digit_char (nat (i mod 10))])"
  by pat_completeness auto
termination
  by (relation "measure nat") auto

declare digits_of.simps [simp del]

lemma digits_of_int: "digits_of (int n) = decimal n"
proof (induction n rule: decimal.induct)
  case (1 n)
  show ?case
  proof (cases "n < 10")
    case True
    then show ?thesis
      by (subst digits_of.simps, subst decimal.simps) simp
  next
    case False
    then have "digits_of (int n div 10) = decimal (n div 10)"
      using "1.IH" by (simp add: zdiv_int)
    with False show ?thesis
      by (subst digits_of.simps, subst decimal.simps) (simp add: nat_mod_distrib zmod_int)
  qed
qed

lemma decimal_code [code]: "decimal n = digits_of (int n)"
  by (simp add: digits_of_int)

lemma py_str_int_code [code]:
  "py_str_int i = (if i < 0 then CHR ''-'' # digits_of (- i) else digits_of i)"
proof -
  have "digits_of j = decimal (nat j)" if "0 \<le> j" for j
    using that digits_of_int [of "nat j"] by simp
  then show ?thesis
    by (simp add: py_str_int_def)
qed

lemma decimal_inj: "decimal m = decimal n \<Longrightarrow> m = n"
  by (metis read_decimal_decimal)

lemma decimal_nonempty: "decimal n \<noteq> []"
  by (subst decimal.simps) simp

section \<open>Termination of the search for a free name\<close>

lemma numbered_inj: "numbered stem ext j = numbered stem ext k \<Longrightarrow> j = k"
  by (simp add: numbered_def decimal_inj)

lemma finite_numbered_in: "finite {k. numbered stem ext k |\<in>| E}"
proof -
  have "finite ((numbered stem ext) -` fset E)"
    by (rule finite_vimageI) (auto simp: inj_on_def dest: numbered_inj)
  then show ?thesis by (simp add: vimage_def)
qed

definition taken_from :: "string fset \<Rightarrow> string \<Rightarrow> string \<Rightarrow> nat \<Rightarrow> nat" where
  "taken_from E stem ext counter = card {k. counter \<le> k \<and> numbered stem ext k |\<in>| E}"

lemma taken_from_step:
  "taken_from E stem ext counter =
     (if numbered stem ext counter |\<in>| E then 1 else 0) + taken_from E stem ext (Suc counter)"
proof -
  let ?A = "{k. Suc counter \<le> k \<and> numbered stem ext k |\<in>| E}"
  have fin: "finite ?A"
    by (rule finite_subset [OF _ finite_numbered_in [of stem ext E]]) auto
  show ?thesis
  proof (cases "numbered stem ext counter |\<in>| E")
    case True
    then have "{k. counter \<le> k \<and> numbered stem ext k |\<in>| E} = insert counter ?A"
      by (auto simp: le_Suc_eq)
    then show ?thesis
      using True fin by (simp add: taken_from_def)
  next
    case False
    then have "{k. counter \<le> k \<and> numbered stem ext k |\<in>| E} = ?A"
      by (force simp: Suc_le_eq order_le_less)
    then show ?thesis
      using False by (simp add: taken_from_def)
  qed
qed

function make_unique_loop :: "string fset \<Rightarrow> string \<Rightarrow> string \<Rightarrow> string \<Rightarrow> nat \<Rightarrow> string" where
  "make_unique_loop E stem ext candidate counter =
     (if candidate |\<in>| E
      then make_unique_loop E stem ext (numbered stem ext counter) (counter + 1)
      else candidate)"
  by pat_completeness auto
termination
proof (relation "measure (\<lambda>(E, stem, ext, candidate, counter).
          taken_from E stem ext counter + (if candidate |\<in>| E then 1 else 0))")
  show "wf (measure (\<lambda>(E, stem, ext, candidate, counter).
          taken_from E stem ext counter + (if candidate |\<in>| E then 1 else 0)))"
    by simp
next
  fix E :: "string fset" and stem ext candidate :: string and counter :: nat
  assume "candidate |\<in>| E"
  then show "((E, stem, ext, numbered stem ext counter, counter + 1), (E, stem, ext, candidate, counter))
      \<in> measure (\<lambda>(E, stem, ext, candidate, counter).
          taken_from E stem ext counter + (if candidate |\<in>| E then 1 else 0))"
    using taken_from_step [of E stem ext counter] by simp
qed

declare make_unique_loop.simps [simp del]

definition make_unique_filename :: "string fset \<Rightarrow> string \<Rightarrow> string" where
  "make_unique_filename E filename =
     (let (stem, ext) = splitext filename
      in make_unique_loop E stem ext filename 2)"

lemma make_unique_loop_free: "make_unique_loop E stem ext candidate counter |\<notin>| E"
  by (induction E stem ext candidate counter rule: make_unique_loop.induct)
     (subst make_unique_loop.simps, simp)

section \<open>Scanning a string for emails\<close>

lemma match_email_at_shorter:
  "match_email_at s = Some (m, remaining) \<Longrightarrow> length remaining < length s"
proof -
  assume a: "match_email_at s = Some (m, remaining)"
  then obtain rest1 where r: "dropWhile email_char s = CHR ''@'' # rest1"
    and rem: "remaining = dropWhile email_char rest1"
    by (auto simp: match_email_at_def Let_def split: if_splits list.splits)
  have "length remaining \<le> length rest1"
    by (simp add: rem length_dropWhile_le)
  moreover have "length (dropWhile email_char s) \<le> length s"
    by (rule length_dropWhile_le)
  ultimately show ?thesis
    by (simp add: r)
qed

text \<open>
  \<^verbatim>\<open>re.findall\<close>: the matches from left to right, none overlapping; where no match
  starts, the scan moves on by one character.
\<close>

function findall_email :: "string \<Rightarrow> string list" where
  "findall_email [] = []"
| "findall_email (c # cs) =
     (case match_email_at (c # cs) of
        Some (m, remaining) \<Rightarrow> m # findall_email remaining
      | None \<Rightarrow> findall_email cs)"
  by pat_completeness auto
termination
  by (relation "measure length") (auto dest: match_email_at_shorter)

subsection \<open>\<^verbatim>\<open>extract_emails\<close>\<close>

text \<open>
  The list \<^verbatim>\<open>emails\<close> that the closures \<^verbatim>\<open>add_email\<close>, \<^verbatim>\<open>harvest_from\<close> and \<^verbatim>\<open>walk\<close>
  append to is passed in and returned.
\<close>

definition add_email :: "string list \<Rightarrow> json \<Rightarrow> string list" where
  "add_email emails e =
     (case e of
        JStr s \<Rightarrow>
          (let e2 = strip s
           in if is_email e2 then (if e2 \<notin> set emails then emails @ [e2] else emails)
              else emails)
      | _ \<Rightarrow> emails)"

definition harvest_item :: "string list \<Rightarrow> json \<Rightarrow> string list" where
  "harvest_item emails it =
     (case it of
        JObj kvs \<Rightarrow>
          (let emails1 = add_email emails (dict_get kvs ''email'' JNull);
               user = dict_get kvs ''user'' JNull
           in (case user of
                 JObj ukvs \<Rightarrow> add_email emails1 (dict_get ukvs ''email'' JNull)
               | _ \<Rightarrow> emails1))
      | _ \<Rightarrow> emails)"

definition harvest_key :: "(string \<times> json) list \<Rightarrow> string list \<Rightarrow> string \<Rightarrow> string list" where
  "harvest_key container emails key =
     (case dict_get container key JNull of
        JArr items \<Rightarrow> foldl harvest_item emails items
      | _ \<Rightarrow> emails)"

definition harvest_from :: "string list \<Rightarrow> (string \<times> json) list \<Rightarrow> string list" where
  "harvest_from emails container =
     foldl (harvest_key container) emails [''signers'', ''recipients'', ''participants'']"

fun walk :: "string list \<Rightarrow> json \<Rightarrow> string list"
  and walk_list :: "string list \<Rightarrow> json list \<Rightarrow> string list"
  and walk_values :: "string list \<Rightarrow> (string \<times> json) list \<Rightarrow> string list" where
  "walk emails (JObj kvs) = walk_values emails kvs"
| "walk emails (JArr vs) = walk_list emails vs"
| "walk emails (JStr s) = foldl (\<lambda>acc m. add_email acc (JStr m)) emails (findall_email s)"
| "walk emails JNull = emails"
| "walk emails (JBool b) = emails"
| "walk emails (JInt i) = emails"
| "walk emails (JFloat r) = emails"
| "walk_list emails [] = emails"
| "walk_list emails (v # vs) = walk_list (walk emails v) vs"
| "walk_values emails [] = emails"
| "walk_values emails (kv # kvs) = walk_values (walk emails (snd kv)) kvs"

definition is_dict :: "json \<Rightarrow> bool" where
  "is_dict v = (case v of JObj kvs \<Rightarrow> True | _ \<Rightarrow> False)"

definition items_of :: "json \<Rightarrow> (string \<times> json) list" where
  "items_of v = (case v of JObj kvs \<Rightarrow> kvs | _ \<Rightarrow> [])"

definition extract_emails :: "json \<Rightarrow> json \<Rightarrow> string list" where
  "extract_emails sig_summary sig_detail =
     (let emails0 = [];
          emails1 = (if is_dict sig_detail then harvest_from emails0 (items_of sig_detail)
                     else emails0);
          emails2 = (if emails1 = [] \<and> is_dict sig_summary
                     then harvest_from emails1 (items_of sig_summary) else emails1)
      in if emails2 \<noteq> [] then emails2
         else let emails3 = (if is_dict sig_detail then walk emails2 sig_detail else emails2);
                  emails4 = (if emails3 = [] \<and> is_dict sig_summary
                             then walk emails3 sig_summary else emails3)
              in emails4)"

section \<open>The HTTP client\<close>

subsection \<open>Settings\<close>

definition PAGE_LIMIT :: nat where
  "PAGE_LIMIT = 100"

definition MAX_RETRIES :: nat where
  "MAX_RETRIES = 5"

text \<open>
  The delays are the floats 1.5, 3.0, 6.0 and 12.0, which binary floating point holds
  exactly; they are modelled as rationals.
\<close>

definition INITIAL_BACKOFF_SECONDS :: rat where
  "INITIAL_BACKOFF_SECONDS = 3 / 2"

definition BASE_URL :: string where
  "BASE_URL = ''https://api.signaturit.com/v3''"

definition OUTPUT_ROOT :: string where
  "OUTPUT_ROOT = ''signaturit_downloads''"

subsection \<open>Requests, responses and the state of the world\<close>

text \<open>
  A request is what \<^verbatim>\<open>requests.get\<close> is called with (the fixed \<^verbatim>\<open>timeout=60\<close> left
  out); \<^verbatim>\<open>params=None\<close> is the empty list. A response offers the fields the program
  reads: \<^verbatim>\<open>status_code\<close>, \<^verbatim>\<open>text\<close>, \<^verbatim>\<open>content\<close> and the result of \<^verbatim>\<open>json()\<close>
  (\<open>None\<close> when it raises).
\<close>

record request =
  url :: string
  authorization :: string
  params :: "(string \<times> string) list"
  stream_body :: bool

record response =
  status_code :: int
  resp_text :: string
  content :: string
  json_body :: "json option"

text \<open>
  The remote API is any deterministic server: it answers the last request of a history,
  given all the requests sent before it, with a response or with the message of the
  exception that \<^verbatim>\<open>requests.get\<close> raises.
\<close>

type_synonym server = "request list \<Rightarrow> string + response"

text \<open>
  The state that the program changes: the requests sent so far, the delays slept, the
  names that exist in the year's folder, the files written there (path and bytes, in
  order), the rows written to the CSV log, the names in \<^verbatim>\<open>_no_email_samples\<close> and
  the debug dumps written there. Console output is not modelled.
\<close>

record world =
  sent :: "request list"
  slept :: "rat list"
  entries :: "string fset"
  written :: "(string \<times> string) list"
  ledger :: "string list list"
  samples :: "string fset"
  dumped :: "(string \<times> json) list"

subsection \<open>\<^verbatim>\<open>api_get\<close>\<close>

definition retry_status :: "int \<Rightarrow> bool" where
  "retry_status code = (code \<in> {429, 500, 502, 503, 504})"

text \<open>
  The \<^verbatim>\<open>for attempt in range(1, MAX_RETRIES + 1)\<close> loop, entered at \<open>attempt\<close> with the
  current \<open>backoff\<close> and the last response bound to \<^verbatim>\<open>resp\<close>, if any. The first
  branch is the \<^verbatim>\<open>return resp\<close> after the loop.
\<close>

function api_get_loop ::
  "server \<Rightarrow> request \<Rightarrow> nat \<Rightarrow> rat \<Rightarrow> response option \<Rightarrow> world \<Rightarrow> (py_error + response) \<times> world" where
  "api_get_loop srv rq attempt backoff bound w =
     (if MAX_RETRIES < attempt
      then ((case bound of None \<Rightarrow> Inl UnboundLocalError | Some resp \<Rightarrow> Inr resp), w)
      else let w1 = w\<lparr>sent := sent w @ [rq]\<rparr>
           in (case srv (sent w1) of
                 Inl msg \<Rightarrow> (Inl (RequestException msg), w1)
               | Inr resp \<Rightarrow>
                   if retry_status (status_code resp)
                   then (if attempt = MAX_RETRIES then (Inr resp, w1)
                         else api_get_loop srv rq (attempt + 1) (backoff * 2) (Some resp)
                                (w1\<lparr>slept := slept w1 @ [backoff]\<rparr>))
                   else (Inr resp, w1)))"
  by pat_completeness auto
termination
  by (relation "measure (\<lambda>(srv, rq, attempt, backoff, bound, w). Suc MAX_RETRIES - attempt)") auto

declare api_get_loop.simps [simp del]

text \<open>Lines 91 and 92 and the arguments of \<^verbatim>\<open>requests.get\<close>: the request of every attempt.\<close>

definition api_request :: "string \<Rightarrow> string \<Rightarrow> (string \<times> string) list \<Rightarrow> bool \<Rightarrow> request" where
  "api_request path token ps stream =
     \<lparr>url = BASE_URL @ path, authorization = ''Bearer '' @ token, params = ps,
      stream_body = stream\<rparr>"

definition api_get ::
  "server \<Rightarrow> string \<Rightarrow> string \<Rightarrow> (string \<times> string) list \<Rightarrow> bool \<Rightarrow> world
     \<Rightarrow> (py_error + response) \<times> world" where
  "api_get srv path token ps stream w =
     api_get_loop srv (api_request path token ps stream) 1 INITIAL_BACKOFF_SECONDS None w"

subsection \<open>\<^verbatim>\<open>fetch_signatures_for_year\<close>\<close>

definition list_params :: "string \<Rightarrow> string \<Rightarrow> nat \<Rightarrow> (string \<times> string) list" where
  "list_params since until offset =
     [(''status'', ''completed''), (''since'', since), (''until'', until),
      (''limit'', decimal PAGE_LIMIT), (''offset'', decimal offset)]"

text \<open>
  The \<^verbatim>\<open>while True\<close> loop with its variables \<^verbatim>\<open>collected\<close> and \<^verbatim>\<open>offset\<close>. It need not
  end (a server may return full pages for ever), so its result is an option and \<open>None\<close>
  means that it does not return. \<^verbatim>\<open>len(page)\<close> is the number of elements that
  \<^verbatim>\<open>extend\<close> has just iterated over.
\<close>

partial_function (option) fetch_loop ::
  "server \<Rightarrow> string \<Rightarrow> string \<Rightarrow> string \<Rightarrow> json list \<Rightarrow> nat \<Rightarrow> world
     \<Rightarrow> ((py_error + json list) \<times> world) option" where
  "fetch_loop srv token since until collected offset w =
     (case api_get srv ''/signatures.json'' token (list_params since until offset) False w of
        (Inl e, w1) \<Rightarrow> Some (Inl e, w1)
      | (Inr resp, w1) \<Rightarrow>
          if status_code resp \<noteq> 200
          then Some (Inl (RuntimeError (''Failed to list signatures: ''
                      @ py_str_int (status_code resp) @ '' '' @ resp_text resp)), w1)
          else (case json_body resp of
                  None \<Rightarrow> Some (Inl JSONDecodeError, w1)
                | Some page \<Rightarrow>
                    if \<not> truthy page then Some (Inr collected, w1)
                    else (case py_iter page of
                            Inl e \<Rightarrow> Some (Inl e, w1)
                          | Inr elems \<Rightarrow>
                              if length elems < PAGE_LIMIT then Some (Inr (collected @ elems), w1)
                              else fetch_loop srv token since until (collected @ elems)
                                     (offset + PAGE_LIMIT) w1)))"

declare fetch_loop.simps [code]

definition fetch_signatures_for_year ::
  "server \<Rightarrow> date \<Rightarrow> string \<Rightarrow> int \<Rightarrow> world \<Rightarrow> ((py_error + json list) \<times> world) option" where
  "fetch_signatures_for_year srv today token year w =
     (let (since, until) = build_date_range_for_year today year
      in fetch_loop srv token since until [] 0 w)"

subsection \<open>\<^verbatim>\<open>fetch_signature_detail\<close> and \<^verbatim>\<open>download_signed_pdf\<close>\<close>

definition fetch_signature_detail ::
  "(json \<Rightarrow> string) \<Rightarrow> server \<Rightarrow> string \<Rightarrow> json \<Rightarrow> world \<Rightarrow> (py_error + json) \<times> world" where
  "fetch_signature_detail fmt srv token signature_id w =
     (case api_get srv (''/signatures/'' @ py_str fmt signature_id @ ''.json'') token [] False w of
        (Inl e, w1) \<Rightarrow> (Inl e, w1)
      | (Inr resp, w1) \<Rightarrow>
          if status_code resp \<noteq> 200
          then (Inl (RuntimeError (''Failed to fetch signature detail ''
                  @ py_str fmt signature_id @ '': '' @ py_str_int (status_code resp)
                  @ '' '' @ resp_text resp)), w1)
          else (case json_body resp of
                  None \<Rightarrow> (Inl JSONDecodeError, w1)
                | Some v \<Rightarrow> (Inr v, w1)))"

definition download_signed_pdf ::
  "(json \<Rightarrow> string) \<Rightarrow> server \<Rightarrow> string \<Rightarrow> json \<Rightarrow> json \<Rightarrow> world \<Rightarrow> (py_error + string) \<times> world" where
  "download_signed_pdf fmt srv token signature_id document_id w =
     (case api_get srv (''/signatures/'' @ py_str fmt signature_id @ ''/documents/''
                        @ py_str fmt document_id @ ''/download/signed'') token [] True w of
        (Inl e, w1) \<Rightarrow> (Inl e, w1)
      | (Inr resp, w1) \<Rightarrow>
          if status_code resp \<noteq> 200
          then (Inl (RuntimeError (''Download failed ('' @ py_str_int (status_code resp)
                  @ ''): '' @ resp_text resp)), w1)
          else (Inr (content resp), w1))"

section \<open>The run: \<^verbatim>\<open>main\<close>\<close>

text \<open>
  The settings \<^verbatim>\<open>YEAR\<close> and the environment variable behind \<^verbatim>\<open>TOKEN\<close> are arguments.
  Paths are written with \<^verbatim>\<open>/\<close>.
\<close>

definition PLACEHOLDER :: string where
  "PLACEHOLDER = ''PASTE_YOUR_TOKEN_HERE''"

text \<open>\<^verbatim>\<open>os.getenv("SIGNATURIT_API_TOKEN") or "PASTE_YOUR_TOKEN_HERE"\<close>.\<close>

definition TOKEN :: "string option \<Rightarrow> string" where
  "TOKEN env = (case env of None \<Rightarrow> PLACEHOLDER | Some t \<Rightarrow> if t = [] then PLACEHOLDER else t)"

text \<open>\<^verbatim>\<open>needle in haystack\<close> on strings.\<close>

definition contains :: "string \<Rightarrow> string \<Rightarrow> bool" where
  "contains haystack needle =
     (\<exists>i \<in> set [0 ..< Suc (length haystack)]. take (length needle) (drop i haystack) = needle)"

definition year_folder :: "int \<Rightarrow> string" where
  "year_folder year = OUTPUT_ROOT @ ''/'' @ py_str_int year"

definition LOG_NAME :: string where
  "LOG_NAME = ''download_log.csv''"

definition SAMPLES_NAME :: string where
  "SAMPLES_NAME = ''_no_email_samples''"

definition HEADER :: "string list" where
  "HEADER = [''signature_id'', ''document_id'', ''email_used'', ''original_filename'',
             ''saved_path'', ''created_at'', ''status'', ''error'']"

text \<open>
  A cell as \<^verbatim>\<open>csv.writer\<close> takes it: \<^verbatim>\<open>None\<close> is the empty string, anything else its
  \<^verbatim>\<open>str\<close>. Quoting and line ends are not modelled: a row is the list of its cells.
\<close>

definition csv_cell :: "(json \<Rightarrow> string) \<Rightarrow> json \<Rightarrow> string" where
  "csv_cell fmt v = (case v of JNull \<Rightarrow> [] | _ \<Rightarrow> py_str fmt v)"

text \<open>\<^verbatim>\<open>str(e)\<close> of a caught exception: its message.\<close>

definition err_str :: "py_error \<Rightarrow> string" where
  "err_str e =
     (case e of
        SystemExit m \<Rightarrow> m
      | RuntimeError m \<Rightarrow> m
      | RequestException m \<Rightarrow> m
      | _ \<Rightarrow> [])"

text \<open>The counters \<^verbatim>\<open>downloaded\<close>, \<^verbatim>\<open>skipped\<close> and \<^verbatim>\<open>failures\<close>.\<close>

record tally =
  downloaded :: nat
  skipped :: nat
  failures :: nat

subsection \<open>One document: the body of \<^verbatim>\<open>for doc in documents\<close>\<close>

text \<open>Lines 263 to 265: \<^verbatim>\<open>doc_id\<close> and \<^verbatim>\<open>original_name\<close>.\<close>

definition doc_names :: "(json \<Rightarrow> string) \<Rightarrow> json \<Rightarrow> py_error + json \<times> json" where
  "doc_names fmt doc =
     (case py_get doc ''id'' JNull of
        Inl e \<Rightarrow> Inl e
      | Inr doc_id \<Rightarrow>
          (case py_get doc ''file'' (JObj []) of
             Inl e \<Rightarrow> Inl e
           | Inr f \<Rightarrow>
               (let file_info = (if truthy f then f else JObj [])
                in (case py_get file_info ''name'' JNull of
                      Inl e \<Rightarrow> Inl e
                    | Inr nm \<Rightarrow>
                        Inr (doc_id,
                             if truthy nm then nm else JStr (py_str fmt doc_id @ ''.pdf''))))))"

text \<open>
  Lines 267 to 274: \<^verbatim>\<open>base_name\<close> and \<^verbatim>\<open>safe_name\<close>. \<^verbatim>\<open>re.sub\<close> raises on a name that
  is not a string.
\<close>

definition base_name_of :: "(json \<Rightarrow> string) \<Rightarrow> string \<Rightarrow> json \<Rightarrow> json" where
  "base_name_of fmt email_used original_name =
     (if email_used \<noteq> [] then JStr (email_used @ ''_'' @ py_str fmt original_name)
      else original_name)"

definition safe_name_of :: "json \<Rightarrow> py_error + string" where
  "safe_name_of base_name =
     (case base_name of
        JStr b \<Rightarrow>
          (let safe_name = sanitize_filename b
           in Inr (if snd (splitext safe_name) = [] then safe_name @ ''.pdf'' else safe_name))
      | _ \<Rightarrow> Inl TypeError)"

definition log_row ::
  "(json \<Rightarrow> string) \<Rightarrow> int \<Rightarrow> json \<Rightarrow> json \<Rightarrow> string \<Rightarrow> json \<Rightarrow> string \<Rightarrow> json \<Rightarrow> string \<Rightarrow> string
     \<Rightarrow> string list" where
  "log_row fmt year sig_id doc_id email_used original_name out_name created_at status err =
     [csv_cell fmt sig_id, csv_cell fmt doc_id, email_used, csv_cell fmt original_name,
      year_folder year @ ''/'' @ out_name, csv_cell fmt created_at, status, err]"

definition process_doc ::
  "(json \<Rightarrow> string) \<Rightarrow> server \<Rightarrow> string \<Rightarrow> int \<Rightarrow> json \<Rightarrow> json \<Rightarrow> string \<Rightarrow> json
     \<Rightarrow> tally \<times> world \<Rightarrow> (py_error + tally) \<times> world" where
  "process_doc fmt srv token year sig_id created_at email_used doc tw =
     (let (t, w) = tw
      in case doc_names fmt doc of
           Inl e \<Rightarrow> (Inl e, w)
         | Inr (doc_id, original_name) \<Rightarrow>
             (case safe_name_of (base_name_of fmt email_used original_name) of
                Inl e \<Rightarrow> (Inl e, w)
              | Inr safe_name \<Rightarrow>
                  (let out_name = make_unique_filename (entries w) safe_name;
                       row = log_row fmt year sig_id doc_id email_used original_name out_name
                               created_at
                   in if out_name |\<in>| entries w
                      then (Inr (t\<lparr>skipped := skipped t + 1\<rparr>),
                            w\<lparr>ledger := ledger w @ [row ''skipped_exists'' []]\<rparr>)
                      else (case download_signed_pdf fmt srv token sig_id doc_id w of
                              (Inr pdf_bytes, w1) \<Rightarrow>
                                (Inr (t\<lparr>downloaded := downloaded t + 1\<rparr>),
                                 w1\<lparr>entries := finsert out_name (entries w1),
                                    written := written w1 @ [(out_name, pdf_bytes)],
                                    ledger := ledger w1 @ [row ''downloaded'' []]\<rparr>)
                            | (Inl e, w1) \<Rightarrow>
                                (Inr (t\<lparr>failures := failures t + 1\<rparr>),
                                 w1\<lparr>ledger := ledger w1 @ [row ''error'' (err_str e)]\<rparr>)))))"

fun process_docs ::
  "(json \<Rightarrow> string) \<Rightarrow> server \<Rightarrow> string \<Rightarrow> int \<Rightarrow> json \<Rightarrow> json \<Rightarrow> string \<Rightarrow> json list
     \<Rightarrow> tally \<times> world \<Rightarrow> (py_error + tally) \<times> world" where
  "process_docs fmt srv token year sig_id created_at email_used [] tw = (Inr (fst tw), snd tw)"
| "process_docs fmt srv token year sig_id created_at email_used (doc # docs) tw =
     (case process_doc fmt srv token year sig_id created_at email_used doc tw of
        (Inl e, w1) \<Rightarrow> (Inl e, w1)
      | (Inr t1, w1) \<Rightarrow>
          process_docs fmt srv token year sig_id created_at email_used docs (t1, w1))"

subsection \<open>One signature: the body of \<^verbatim>\<open>for sig in signatures\<close>\<close>

text \<open>Lines 254 to 260: the debug dump of a record without email.\<close>

definition dump_debug :: "(json \<Rightarrow> string) \<Rightarrow> json \<Rightarrow> json \<Rightarrow> world \<Rightarrow> world" where
  "dump_debug fmt sig_id detail w =
     (let w1 = w\<lparr>entries := finsert SAMPLES_NAME (entries w)\<rparr>;
          debug_file = py_str fmt sig_id @ ''.json''
      in if truthy detail \<and> debug_file |\<notin>| samples w1
         then w1\<lparr>samples := finsert debug_file (samples w1),
                 dumped := dumped w1 @ [(debug_file, detail)]\<rparr>
         else w1)"

definition process_signature ::
  "(json \<Rightarrow> string) \<Rightarrow> server \<Rightarrow> string \<Rightarrow> int \<Rightarrow> json \<Rightarrow> tally \<times> world
     \<Rightarrow> (py_error + tally) \<times> world" where
  "process_signature fmt srv token year sg tw =
     (let (t, w) = tw
      in case sg of
           JObj kvs \<Rightarrow>
             (let sig_id = dict_get kvs ''id'' JNull;
                  created_at = dict_get kvs ''created_at'' (JStr []);
                  d = dict_get kvs ''documents'' (JArr []);
                  documents = (if truthy d then d else JArr []);
                  (detail, w1) = (case fetch_signature_detail fmt srv token sig_id w of
                                    (Inr v, w1) \<Rightarrow> (v, w1)
                                  | (Inl e, w1) \<Rightarrow> (JNull, w1));
                  emails = extract_emails sg detail;
                  email_used = (if emails \<noteq> [] then join ''+'' emails else []);
                  w2 = (if email_used = [] then dump_debug fmt sig_id detail w1 else w1)
              in (case py_iter documents of
                    Inl e \<Rightarrow> (Inl e, w2)
                  | Inr docs \<Rightarrow>
                      process_docs fmt srv token year sig_id created_at email_used docs (t, w2)))
         | _ \<Rightarrow> (Inl AttributeError, w))"

fun process_signatures ::
  "(json \<Rightarrow> string) \<Rightarrow> server \<Rightarrow> string \<Rightarrow> int \<Rightarrow> json list \<Rightarrow> tally \<times> world
     \<Rightarrow> (py_error + tally) \<times> world" where
  "process_signatures fmt srv token year [] tw = (Inr (fst tw), snd tw)"
| "process_signatures fmt srv token year (sg # sigs) tw =
     (case process_signature fmt srv token year sg tw of
        (Inl e, w1) \<Rightarrow> (Inl e, w1)
      | (Inr t1, w1) \<Rightarrow> process_signatures fmt srv token year sigs (t1, w1))"

subsection \<open>\<^verbatim>\<open>main\<close>\<close>

text \<open>Lines 227 to 231: the header row of a new log file.\<close>

definition open_log :: "world \<Rightarrow> world" where
  "open_log w =
     (if LOG_NAME |\<notin>| entries w
      then w\<lparr>entries := finsert LOG_NAME (entries w), ledger := ledger w @ [HEADER]\<rparr>
      else w)"

text \<open>
  The result is \<open>None\<close> when the listing does not return; otherwise the exception that
  ended the run or the final counters, with the state the run left behind.
\<close>

definition main ::
  "(json \<Rightarrow> string) \<Rightarrow> server \<Rightarrow> date \<Rightarrow> string option \<Rightarrow> int \<Rightarrow> world
     \<Rightarrow> ((py_error + tally) \<times> world) option" where
  "main fmt srv today env year w =
     (if TOKEN env = [] \<or> contains (TOKEN env) PLACEHOLDER
      then Some (Inl (SystemExit ''No API token set. Either set SIGNATURIT_API_TOKEN or paste your token into the TOKEN variable (replace PASTE_YOUR_TOKEN_HERE).''), w)
      else case fetch_signatures_for_year srv today (TOKEN env) year w of
             None \<Rightarrow> None
           | Some (Inl e, w1) \<Rightarrow> Some (Inl e, w1)
           | Some (Inr signatures, w1) \<Rightarrow>
               Some (process_signatures fmt srv (TOKEN env) year signatures
                       (\<lparr>downloaded = 0, skipped = 0, failures = 0\<rparr>, open_log w1)))"

section \<open>Properties of \<^verbatim>\<open>sanitize_filename\<close>\<close>






















section \<open>The date range of a year\<close>

text \<open>
  Claim C10. For every year \<open>Y\<close>, \<^verbatim>\<open>build_date_range_for_year\<close> returns
  \<^verbatim>\<open>since\<close> = \<^verbatim>\<open>Y-01-01\<close>, and \<^verbatim>\<open>until\<close> = \<^verbatim>\<open>Y-12-31\<close> unless \<open>Y\<close> is the current year,
  in which case \<^verbatim>\<open>until\<close> is today's date in ISO format.
\<close>

theorem build_date_range_for_year_bounds:
  "fst (build_date_range_for_year today Y) = py_str_int Y @ ''-01-01''
   \<and> (Y \<noteq> d_year today \<longrightarrow>
        snd (build_date_range_for_year today Y) = py_str_int Y @ ''-12-31'')
   \<and> (Y = d_year today \<longrightarrow>
        snd (build_date_range_for_year today Y) = isoformat today)"
  by (simp add: build_date_range_for_year_def today_iso_def Let_def)

text \<open>The theorem on 4 November 2026, for a past year and for the current year.\<close>

theorem build_date_range_for_year_bounds_witness:
  "build_date_range_for_year \<lparr>d_year = 2026, d_month = 11, d_day = 4\<rparr> 2024
     = (''2024-01-01'', ''2024-12-31'')
   \<and> build_date_range_for_year \<lparr>d_year = 2026, d_month = 11, d_day = 4\<rparr> 2026
     = (''2026-01-01'', ''2026-11-04'')"
proof -
  let ?today = "\<lparr>d_year = 2026, d_month = 11, d_day = 4\<rparr>"
  have a: "py_str_int 2024 = ''2024''" "py_str_int 2026 = ''2026''"
    by code_simp+
  have b: "isoformat ?today = ''2026-11-04''"
    by code_simp
  have "build_date_range_for_year ?today 2024 = (''2024-01-01'', ''2024-12-31'')"
    using build_date_range_for_year_bounds [of ?today 2024] a
    by (simp add: prod_eq_iff)
  moreover have "build_date_range_for_year ?today 2026 = (''2026-01-01'', ''2026-11-04'')"
    using build_date_range_for_year_bounds [of ?today 2026] a b
    by (simp add: prod_eq_iff)
  ultimately show ?thesis by blast
qed

section \<open>The name that \<^verbatim>\<open>make_unique_filename\<close> returns\<close>

lemma make_unique_loop_first:
  "candidate |\<in>| E \<Longrightarrow> counter \<le> k
   \<Longrightarrow> \<forall>j. counter \<le> j \<and> j < k \<longrightarrow> numbered stem ext j |\<in>| E
   \<Longrightarrow> numbered stem ext k |\<notin>| E
   \<Longrightarrow> make_unique_loop E stem ext candidate counter = numbered stem ext k"
proof (induction "k - counter" arbitrary: candidate counter)
  case 0
  then have "counter = k" by simp
  with 0 show ?case
    by (simp add: make_unique_loop.simps [of E stem ext candidate]
        make_unique_loop.simps [of E stem ext "numbered stem ext k"])
next
  case (Suc d)
  then have lt: "counter < k" by simp
  with Suc.prems have here: "numbered stem ext counter |\<in>| E" by simp
  have "make_unique_loop E stem ext (numbered stem ext counter) (Suc counter) = numbered stem ext k"
  proof (rule Suc.hyps(1))
    show "d = k - Suc counter" using Suc.hyps(2) by simp
    show "numbered stem ext counter |\<in>| E" by (rule here)
    show "Suc counter \<le> k" using lt by simp
    show "\<forall>j. Suc counter \<le> j \<and> j < k \<longrightarrow> numbered stem ext j |\<in>| E"
      using Suc.prems(3) by simp
    show "numbered stem ext k |\<notin>| E" by (rule Suc.prems(4))
  qed
  then show ?case
    using Suc.prems(1) by (simp add: make_unique_loop.simps [of E stem ext candidate])
qed

lemma splitext_report: "splitext ''report.pdf'' = (''report'', ''.pdf'')"
  by code_simp

lemma numbered_report:
  "numbered ''report'' ''.pdf'' 2 = ''report_2.pdf''"
  "numbered ''report'' ''.pdf'' 3 = ''report_3.pdf''"
  by code_simp+

text \<open>
  Claim C3, as amended. \<^verbatim>\<open>make_unique_filename\<close> returns the name itself when it
  is free, and otherwise the first of \<^verbatim>\<open>stem_2.ext\<close>, \<^verbatim>\<open>stem_3.ext\<close>, ... that does
  not exist in the directory. With \<^verbatim>\<open>report.pdf\<close> on disk it returns
  \<^verbatim>\<open>report_2.pdf\<close>; it returns \<^verbatim>\<open>report_3.pdf\<close> once \<^verbatim>\<open>report_2.pdf\<close> is on disk
  too. The counter starts at 2 in every call and only the directory decides the result.
\<close>

theorem make_unique_filename_first_free:
  "(filename |\<notin>| E \<longrightarrow> make_unique_filename E filename = filename)
   \<and> (filename |\<in>| E \<and> 2 \<le> k
        \<and> (\<forall>j. 2 \<le> j \<and> j < k \<longrightarrow>
               numbered (fst (splitext filename)) (snd (splitext filename)) j |\<in>| E)
        \<and> numbered (fst (splitext filename)) (snd (splitext filename)) k |\<notin>| E
      \<longrightarrow> make_unique_filename E filename
            = numbered (fst (splitext filename)) (snd (splitext filename)) k)
   \<and> (''report.pdf'' |\<in>| E \<and> ''report_2.pdf'' |\<notin>| E
      \<longrightarrow> make_unique_filename E ''report.pdf'' = ''report_2.pdf'')
   \<and> (''report.pdf'' |\<in>| E \<and> ''report_2.pdf'' |\<in>| E \<and> ''report_3.pdf'' |\<notin>| E
      \<longrightarrow> make_unique_filename E ''report.pdf'' = ''report_3.pdf'')"
proof -
  have free: "make_unique_filename E filename = filename" if "filename |\<notin>| E"
    using that by (simp add: make_unique_filename_def split_beta make_unique_loop.simps)
  have first: "make_unique_filename E f = numbered (fst (splitext f)) (snd (splitext f)) n"
    if "f |\<in>| E" "2 \<le> n"
      "\<forall>j. 2 \<le> j \<and> j < n \<longrightarrow> numbered (fst (splitext f)) (snd (splitext f)) j |\<in>| E"
      "numbered (fst (splitext f)) (snd (splitext f)) n |\<notin>| E" for f n
    using that by (simp add: make_unique_filename_def split_beta make_unique_loop_first)
  have two: "make_unique_filename E ''report.pdf'' = ''report_2.pdf''"
    if "''report.pdf'' |\<in>| E" "''report_2.pdf'' |\<notin>| E"
  proof -
    have "\<forall>j. 2 \<le> j \<and> j < (2::nat) \<longrightarrow> numbered ''report'' ''.pdf'' j |\<in>| E"
      by auto
    then show ?thesis
      using first [of "''report.pdf''" 2] that
      by (simp add: splitext_report numbered_report)
  qed
  have three: "make_unique_filename E ''report.pdf'' = ''report_3.pdf''"
    if "''report.pdf'' |\<in>| E" "''report_2.pdf'' |\<in>| E" "''report_3.pdf'' |\<notin>| E"
  proof -
    have "\<forall>j. 2 \<le> j \<and> j < 3 \<longrightarrow> numbered ''report'' ''.pdf'' j |\<in>| E"
    proof (intro allI impI)
      fix j :: nat
      assume "2 \<le> j \<and> j < 3"
      then have "j = 2" by simp
      then show "numbered ''report'' ''.pdf'' j |\<in>| E"
        using that(2) by (simp add: numbered_report)
    qed
    then show ?thesis
      using first [of "''report.pdf''" 3] that
      by (simp add: splitext_report numbered_report)
  qed
  show ?thesis
    using free first [of filename k] two three by blast
qed

text \<open>The theorem on three directories.\<close>

theorem make_unique_filename_first_free_witness:
  "make_unique_filename {|''report.pdf''|} ''report.pdf'' = ''report_2.pdf''
   \<and> make_unique_filename {|''report.pdf'', ''report_2.pdf''|} ''report.pdf'' = ''report_3.pdf''
   \<and> make_unique_filename {|''other.pdf''|} ''report.pdf'' = ''report.pdf''"
proof -
  have "make_unique_filename {|''report.pdf''|} ''report.pdf'' = ''report_2.pdf''"
    using make_unique_filename_first_free [of "''report.pdf''" "{|''report.pdf''|}"] by simp
  moreover have "make_unique_filename {|''report.pdf'', ''report_2.pdf''|} ''report.pdf''
      = ''report_3.pdf''"
    using make_unique_filename_first_free [of "''report.pdf''" "{|''report.pdf'', ''report_2.pdf''|}"]
    by simp
  moreover have "make_unique_filename {|''other.pdf''|} ''report.pdf'' = ''report.pdf''"
    using make_unique_filename_first_free [of "''report.pdf''" "{|''other.pdf''|}"] by simp
  ultimately show ?thesis by blast
qed

text \<open>
  Claim C3 as stated fails: with only \<^verbatim>\<open>report.pdf\<close> on disk, a call returns
  \<^verbatim>\<open>report_2.pdf\<close>, and so does every later call while no file is created; none
  returns \<^verbatim>\<open>report_3.pdf\<close>.
\<close>

theorem make_unique_filename_repeat_counterexample:
  "make_unique_filename {|''report.pdf''|} ''report.pdf'' = ''report_2.pdf''
   \<and> make_unique_filename {|''report.pdf''|} ''report.pdf'' \<noteq> ''report_3.pdf''"
  by code_simp

section \<open>What the network calls leave untouched\<close>

definition same_disk :: "world \<Rightarrow> world \<Rightarrow> bool" where
  "same_disk w w' =
     (entries w' = entries w \<and> written w' = written w \<and> ledger w' = ledger w
      \<and> samples w' = samples w \<and> dumped w' = dumped w)"

lemma same_disk_refl: "same_disk w w"
  by (simp add: same_disk_def)

lemma same_disk_trans: "same_disk w w1 \<Longrightarrow> same_disk w1 w2 \<Longrightarrow> same_disk w w2"
  by (simp add: same_disk_def)

lemma same_disk_net:
  "same_disk w (w\<lparr>sent := s\<rparr>)" "same_disk w (w\<lparr>sent := s, slept := d\<rparr>)"
  by (simp_all add: same_disk_def)

lemma api_get_loop_same_disk:
  "api_get_loop srv rq attempt backoff bound w = (r, w') \<Longrightarrow> same_disk w w'"
proof (induction srv rq attempt backoff bound w arbitrary: r w' rule: api_get_loop.induct)
  case (1 srv rq attempt backoff bound w)
  let ?w1 = "w\<lparr>sent := sent w @ [rq]\<rparr>"
  note run = "1.prems" [unfolded api_get_loop.simps [of srv rq attempt backoff bound w]]
  show ?case
  proof (cases "MAX_RETRIES < attempt")
    case True
    with run show ?thesis
      by (simp add: same_disk_refl)
  next
    case over: False
    show ?thesis
    proof (cases "srv (sent ?w1)")
      case (Inl msg)
      with run over have "w' = ?w1"
        by (simp add: Let_def)
      then show ?thesis
        by (simp add: same_disk_net)
    next
      case (Inr resp)
      show ?thesis
      proof (cases "retry_status (status_code resp) \<and> attempt \<noteq> MAX_RETRIES")
        case False
        with run over Inr have "w' = ?w1"
          by (auto simp: Let_def split: if_splits)
        then show ?thesis
          by (simp add: same_disk_net)
      next
        case True
        with run over Inr have
          "api_get_loop srv rq (attempt + 1) (backoff * 2) (Some resp)
             (?w1\<lparr>slept := slept ?w1 @ [backoff]\<rparr>) = (r, w')"
          by (simp add: Let_def)
        then have "same_disk (?w1\<lparr>slept := slept ?w1 @ [backoff]\<rparr>) w'"
          using "1.IH" [OF over refl Inr] True by blast
        then show ?thesis
          by (simp add: same_disk_def)
      qed
    qed
  qed
qed

lemma api_get_same_disk: "api_get srv path token ps stream w = (r, w') \<Longrightarrow> same_disk w w'"
  by (auto simp: api_get_def dest: api_get_loop_same_disk)

lemma download_same_disk:
  "download_signed_pdf fmt srv token sid did w = (r, w') \<Longrightarrow> same_disk w w'"
  by (auto simp: download_signed_pdf_def split: prod.splits sum.splits if_splits
      dest: api_get_same_disk)

lemma detail_same_disk:
  "fetch_signature_detail fmt srv token sid w = (r, w') \<Longrightarrow> same_disk w w'"
  by (auto simp: fetch_signature_detail_def split: prod.splits sum.splits if_splits option.splits
      dest: api_get_same_disk)

lemma fetch_loop_same_disk:
  assumes "fetch_loop srv token since until collected offset w = Some rw"
  shows "same_disk w (snd rw)"
proof (rule fetch_loop.raw_induct
    [where P = "\<lambda>srv token since until collected offset w rw. same_disk w (snd rw)",
      OF _ assms], goal_cases)
  case (1 loop srv token since until collected offset w rw)
  obtain r w1 where
    a: "api_get srv ''/signatures.json'' token (list_params since until offset) False w = (r, w1)"
    by (cases "api_get srv ''/signatures.json'' token (list_params since until offset) False w")
  then have d: "same_disk w w1"
    by (rule api_get_same_disk)
  from 1(2) a have
    "snd rw = w1 \<or> (\<exists>c. loop srv token since until c (offset + PAGE_LIMIT) w1 = Some rw)"
    by (auto split: sum.splits if_splits option.splits)
  then show ?case
  proof
    assume "snd rw = w1"
    with d show ?thesis by simp
  next
    assume "\<exists>c. loop srv token since until c (offset + PAGE_LIMIT) w1 = Some rw"
    then obtain c where "loop srv token since until c (offset + PAGE_LIMIT) w1 = Some rw" ..
    then have "same_disk w1 (snd rw)" by (rule 1(1))
    with d show ?thesis by (rule same_disk_trans)
  qed
qed

lemma make_unique_filename_free: "make_unique_filename E name |\<notin>| E"
  by (simp add: make_unique_filename_def split_beta make_unique_loop_free)

lemma log_row_status [simp]:
  "log_row fmt year sig_id doc_id email_used original_name out_name created_at status err ! 6 = status"
  by (simp add: log_row_def)

lemma process_doc_cases:
  assumes "process_doc fmt srv token year sig_id created_at email_used doc (t, w) = (res, w')"
  shows "(\<exists>e. res = Inl e \<and> w' = w
            \<and> (doc_names fmt doc = Inl e
                \<or> (\<exists>did orig. doc_names fmt doc = Inr (did, orig)
                      \<and> safe_name_of (base_name_of fmt email_used orig) = Inl e)))
       \<or> (\<exists>did orig nm pdf w1.
             doc_names fmt doc = Inr (did, orig)
             \<and> safe_name_of (base_name_of fmt email_used orig) = Inr nm
             \<and> download_signed_pdf fmt srv token sig_id did w = (Inr pdf, w1)
             \<and> res = Inr (t\<lparr>downloaded := downloaded t + 1\<rparr>)
             \<and> w' = w1\<lparr>entries := finsert (make_unique_filename (entries w) nm) (entries w1),
                       written := written w1 @ [(make_unique_filename (entries w) nm, pdf)],
                       ledger := ledger w1 @ [log_row fmt year sig_id did email_used orig
                          (make_unique_filename (entries w) nm) created_at ''downloaded'' []]\<rparr>)
       \<or> (\<exists>did orig nm e w1.
             doc_names fmt doc = Inr (did, orig)
             \<and> safe_name_of (base_name_of fmt email_used orig) = Inr nm
             \<and> download_signed_pdf fmt srv token sig_id did w = (Inl e, w1)
             \<and> res = Inr (t\<lparr>failures := failures t + 1\<rparr>)
             \<and> w' = w1\<lparr>ledger := ledger w1 @ [log_row fmt year sig_id did email_used orig
                          (make_unique_filename (entries w) nm) created_at ''error'' (err_str e)]\<rparr>)"
  using assms make_unique_filename_free [of "entries w"]
  by (auto simp: process_doc_def Let_def split: sum.splits prod.splits)

section \<open>No row of a run is a skip\<close>

definition no_skip :: "tally \<Rightarrow> world \<Rightarrow> (py_error + tally) \<times> world \<Rightarrow> bool" where
  "no_skip t w rw =
     (\<exists>rows. ledger (snd rw) = ledger w @ rows
        \<and> (\<forall>row \<in> set rows. row ! 6 \<noteq> ''skipped_exists'')
        \<and> (\<forall>t'. fst rw = Inr t' \<longrightarrow> skipped t' = skipped t))"

lemma no_skip_trans:
  "no_skip t w (Inr t1, w1) \<Longrightarrow> no_skip t1 w1 rw \<Longrightarrow> no_skip t w rw"
  unfolding no_skip_def by (elim exE conjE, rule_tac x = "rows @ rowsa" in exI) auto

lemma no_skip_same:
  "ledger w1 = ledger w \<Longrightarrow> no_skip t w1 rw \<Longrightarrow> no_skip t w rw"
  by (simp add: no_skip_def)

lemma no_skip_stop: "ledger w1 = ledger w \<Longrightarrow> no_skip t w (Inl e, w1)"
  by (simp add: no_skip_def)

lemma no_skip_done: "no_skip t w (Inr t, w)"
  by (simp add: no_skip_def)

lemma no_skip_doc:
  "no_skip t w (process_doc fmt srv token year sig_id created_at email_used doc (t, w))"
proof -
  obtain res w' where
    run: "process_doc fmt srv token year sig_id created_at email_used doc (t, w) = (res, w')"
    by (cases "process_doc fmt srv token year sig_id created_at email_used doc (t, w)")
  from process_doc_cases [OF run] show ?thesis
    unfolding run no_skip_def
    by (elim disjE exE conjE) (auto dest!: download_same_disk simp: same_disk_def)
qed

lemma no_skip_docs:
  "no_skip t w (process_docs fmt srv token year sig_id created_at email_used docs (t, w))"
proof (induction docs arbitrary: t w)
  case Nil
  show ?case by (simp add: no_skip_done)
next
  case (Cons doc docs)
  obtain res w1 where
    run: "process_doc fmt srv token year sig_id created_at email_used doc (t, w) = (res, w1)"
    by (cases "process_doc fmt srv token year sig_id created_at email_used doc (t, w)")
  have one: "no_skip t w (res, w1)"
    using no_skip_doc [of t w fmt srv token year sig_id created_at email_used doc] run by simp
  show ?case
  proof (cases res)
    case (Inl e)
    with run one show ?thesis by simp
  next
    case (Inr t1)
    with run one Cons.IH [of t1 w1] show ?thesis
      by (auto intro: no_skip_trans)
  qed
qed

lemma ledger_dump_debug [simp]: "ledger (dump_debug fmt sig_id detail w) = ledger w"
  by (simp add: dump_debug_def Let_def)

lemma no_skip_signature: "no_skip t w (process_signature fmt srv token year sg (t, w))"
proof (cases sg)
  case (JObj kvs)
  let ?sid = "dict_get kvs ''id'' JNull"
  obtain r w1 where f: "fetch_signature_detail fmt srv token ?sid w = (r, w1)"
    by (cases "fetch_signature_detail fmt srv token ?sid w")
  then have l: "ledger w1 = ledger w"
    using detail_same_disk [OF f] by (simp add: same_disk_def)
  show ?thesis
    using JObj f l
    by (auto simp: process_signature_def Let_def split: sum.splits prod.splits
        intro!: no_skip_same [OF _ no_skip_docs] no_skip_stop)
qed (simp_all add: process_signature_def no_skip_stop)

lemma no_skip_signatures: "no_skip t w (process_signatures fmt srv token year sigs (t, w))"
proof (induction sigs arbitrary: t w)
  case Nil
  show ?case by (simp add: no_skip_done)
next
  case (Cons sg sigs)
  obtain res w1 where run: "process_signature fmt srv token year sg (t, w) = (res, w1)"
    by (cases "process_signature fmt srv token year sg (t, w)")
  have one: "no_skip t w (res, w1)"
    using no_skip_signature [of t w fmt srv token year sg] run by simp
  show ?case
  proof (cases res)
    case (Inl e)
    with run one show ?thesis by simp
  next
    case (Inr t1)
    with run one Cons.IH [of t1 w1] show ?thesis
      by (auto intro: no_skip_trans)
  qed
qed

lemma fetch_year_same_disk:
  "fetch_signatures_for_year srv today token year w = Some rw \<Longrightarrow> same_disk w (snd rw)"
  by (auto simp: fetch_signatures_for_year_def split: prod.splits dest: fetch_loop_same_disk)

lemma no_skip_main:
  assumes "main fmt srv today env year w = Some rw"
  shows "no_skip \<lparr>downloaded = 0, skipped = 0, failures = 0\<rparr> w rw"
proof (cases "TOKEN env = [] \<or> contains (TOKEN env) PLACEHOLDER")
  case True
  with assms show ?thesis
    by (auto simp: main_def no_skip_stop)
next
  case False
  let ?t0 = "\<lparr>downloaded = 0, skipped = 0, failures = 0\<rparr>"
  from assms False obtain r w1 where
    f: "fetch_signatures_for_year srv today (TOKEN env) year w = Some (r, w1)"
    by (auto simp: main_def split: option.splits)
  have l: "ledger w1 = ledger w"
    using fetch_year_same_disk [OF f] by (simp add: same_disk_def)
  show ?thesis
  proof (cases r)
    case (Inl e)
    with assms False f l show ?thesis
      by (auto simp: main_def no_skip_stop)
  next
    case (Inr sigs)
    with assms False f have
      rw: "rw = process_signatures fmt srv (TOKEN env) year sigs (?t0, open_log w1)"
      by (simp add: main_def)
    have "no_skip ?t0 (open_log w1) rw"
      unfolding rw by (rule no_skip_signatures)
    then obtain rows where rows: "ledger (snd rw) = ledger (open_log w1) @ rows"
      "\<forall>row \<in> set rows. row ! 6 \<noteq> ''skipped_exists''"
      "\<forall>t'. fst rw = Inr t' \<longrightarrow> skipped t' = skipped ?t0"
      unfolding no_skip_def by blast
    show ?thesis
    proof (cases "LOG_NAME |\<in>| entries w1")
      case True
      with rows l show ?thesis
        by (auto simp: no_skip_def open_log_def)
    next
      case False
      with rows(1) l have "ledger (snd rw) = ledger w @ (HEADER # rows)"
        by (simp add: open_log_def)
      moreover have "HEADER ! 6 \<noteq> ''skipped_exists''"
        by (simp add: HEADER_def)
      ultimately show ?thesis
        unfolding no_skip_def using rows(2,3)
        by (intro exI [of _ "HEADER # rows"]) simp
    qed
  qed
qed

section \<open>Example runs\<close>

text \<open>
  A server for the examples answers by the URL of the request alone. The first example
  is a second run over a folder that already holds \<^verbatim>\<open>report.pdf\<close> and the log: one
  signature without signer email, with the single document \<^verbatim>\<open>report.pdf\<close>.
\<close>

definition json_response :: "json \<Rightarrow> response" where
  "json_response v = \<lparr>status_code = 200, resp_text = [], content = [], json_body = Some v\<rparr>"

definition pdf_response :: response where
  "pdf_response = \<lparr>status_code = 200, resp_text = [], content = ''%PDF-1.4'', json_body = None\<rparr>"

definition not_found :: response where
  "not_found = \<lparr>status_code = 404, resp_text = ''gone'', content = ''gone'', json_body = None\<rparr>"

definition example_today :: date where
  "example_today = \<lparr>d_year = 2026, d_month = 11, d_day = 4\<rparr>"

definition no_repr :: "json \<Rightarrow> string" where
  "no_repr v = []"

definition report_signature :: json where
  "report_signature =
     JObj [(''id'', JStr ''s1''), (''created_at'', JStr ''2024-03-01''),
           (''documents'', JArr [JObj [(''id'', JStr ''d1''),
                                       (''file'', JObj [(''name'', JStr ''report.pdf'')])]])]"

definition report_server :: server where
  "report_server history =
     (let u = url (last history)
      in if u = ''https://api.signaturit.com/v3/signatures.json''
         then Inr (json_response (JArr [report_signature]))
         else if u = ''https://api.signaturit.com/v3/signatures/s1.json''
         then Inr (json_response report_signature)
         else if u = ''https://api.signaturit.com/v3/signatures/s1/documents/d1/download/signed''
         then Inr pdf_response
         else Inr not_found)"

definition report_world :: world where
  "report_world =
     \<lparr>sent = [], slept = [], entries = {|''report.pdf'', ''download_log.csv''|}, written = [],
      ledger = [], samples = {||}, dumped = []\<rparr>"

lemmas run_eval =
  main_def TOKEN_def PLACEHOLDER_def contains_def fetch_signatures_for_year_def
  build_date_range_for_year_def py_str_int_def decimal.simps digit_char_def today_iso_def
  isoformat_def zero_pad_def fetch_loop.simps api_get_def api_request_def api_get_loop.simps
  list_params_def
  PAGE_LIMIT_def MAX_RETRIES_def INITIAL_BACKOFF_SECONDS_def BASE_URL_def OUTPUT_ROOT_def
  retry_status_def truthy_def py_iter_def py_get_def py_str_def dict_get_def
  process_signature_def process_doc_def doc_names_def base_name_of_def safe_name_of_def
  log_row_def csv_cell_def err_str_def year_folder_def LOG_NAME_def SAMPLES_NAME_def HEADER_def
  open_log_def dump_debug_def fetch_signature_detail_def download_signed_pdf_def
  extract_emails_def is_dict_def items_of_def harvest_from_def harvest_key_def harvest_item_def
  add_email_def is_email_def match_email_at_def inner_dot_def email_char_def is_space_def
  strip_def sanitize_filename_def replace_forbidden_def forbidden_def splitext_def
  make_unique_filename_def make_unique_loop.simps numbered_def Let_def
  json_response_def pdf_response_def not_found_def example_today_def no_repr_def

definition report_after :: world where
  "report_after =
     \<lparr>sent =
        [\<lparr>url = ''https://api.signaturit.com/v3/signatures.json'',
          authorization = ''Bearer secret'',
          params = [(''status'', ''completed''), (''since'', ''2024-01-01''),
                    (''until'', ''2024-12-31''), (''limit'', ''100''), (''offset'', ''0'')],
          stream_body = False\<rparr>,
         \<lparr>url = ''https://api.signaturit.com/v3/signatures/s1.json'',
          authorization = ''Bearer secret'', params = [], stream_body = False\<rparr>,
         \<lparr>url = ''https://api.signaturit.com/v3/signatures/s1/documents/d1/download/signed'',
          authorization = ''Bearer secret'', params = [], stream_body = True\<rparr>],
      slept = [],
      entries = {|''report_2.pdf'', ''_no_email_samples'', ''report.pdf'', ''download_log.csv''|},
      written = [(''report_2.pdf'', ''%PDF-1.4'')],
      ledger = [[''s1'', ''d1'', [], ''report.pdf'', ''signaturit_downloads/2024/report_2.pdf'',
                 ''2024-03-01'', ''downloaded'', []]],
      samples = {|''s1.json''|},
      dumped = [(''s1.json'', report_signature)]\<rparr>"

lemma report_run:
  "main no_repr report_server example_today (Some ''secret'') 2024 report_world
   = Some (Inr \<lparr>downloaded = 1, skipped = 0, failures = 0\<rparr>, report_after)"
  by (simp add: run_eval report_signature_def report_server_def report_world_def report_after_def)

section \<open>The skip branch of \<^verbatim>\<open>main\<close>\<close>

text \<open>
  Claim C2. The name that \<^verbatim>\<open>make_unique_filename\<close> returns does not exist in the
  directory it was computed for. So the test \<^verbatim>\<open>out_path.exists()\<close> that follows it in
  \<^verbatim>\<open>main\<close> is always false: whatever the server and the folder, a run that returns has
  appended no row with status \<^verbatim>\<open>skipped_exists\<close>, and its counter \<^verbatim>\<open>skipped\<close> is 0.
\<close>

theorem make_unique_filename_never_exists:
  "make_unique_filename E name |\<notin>| E
   \<and> (main fmt srv today env year w = Some (res, w') \<longrightarrow>
        (\<exists>rows. ledger w' = ledger w @ rows
            \<and> (\<forall>row \<in> set rows. row ! 6 \<noteq> ''skipped_exists''))
        \<and> (\<forall>t. res = Inr t \<longrightarrow> skipped t = 0))"
proof -
  have "make_unique_filename E name |\<notin>| E"
    by (rule make_unique_filename_free)
  moreover have "(\<exists>rows. ledger w' = ledger w @ rows
            \<and> (\<forall>row \<in> set rows. row ! 6 \<noteq> ''skipped_exists''))
        \<and> (\<forall>t. res = Inr t \<longrightarrow> skipped t = 0)"
    if "main fmt srv today env year w = Some (res, w')"
    using no_skip_main [OF that] by (auto simp: no_skip_def)
  ultimately show ?thesis by blast
qed

text \<open>The theorem on the second run over \<^verbatim>\<open>report.pdf\<close>: nothing is skipped.\<close>

theorem make_unique_filename_never_exists_witness:
  "make_unique_filename {|''report.pdf''|} ''report.pdf'' |\<notin>| {|''report.pdf''|}
   \<and> main no_repr report_server example_today (Some ''secret'') 2024 report_world
       = Some (Inr \<lparr>downloaded = 1, skipped = 0, failures = 0\<rparr>, report_after)
   \<and> ''skipped_exists'' \<notin> (\<lambda>row. row ! 6) ` set (ledger report_after)"
proof -
  note inst = make_unique_filename_never_exists
    [of "{|''report.pdf''|}" "''report.pdf''" no_repr report_server example_today "Some ''secret''"
      2024 report_world "Inr \<lparr>downloaded = 1, skipped = 0, failures = 0\<rparr>" report_after]
  have "ledger report_world = []"
    by (simp add: report_world_def)
  with inst report_run show ?thesis
    by auto
qed

section \<open>A second run over a folder that holds every file\<close>

text \<open>
  Claim C1 says that a run over a folder that already holds every expected file downloads
  nothing and writes a \<^verbatim>\<open>skipped_exists\<close> row for each document. The program does
  not: in the example the folder holds \<^verbatim>\<open>report.pdf\<close>, the only expected file, and the
  run downloads the document again, writes it as \<^verbatim>\<open>report_2.pdf\<close> and logs the row
  \<^verbatim>\<open>downloaded\<close>.
\<close>

theorem rerun_downloads_again:
  "main no_repr report_server example_today (Some ''secret'') 2024 report_world
     = Some (Inr \<lparr>downloaded = 1, skipped = 0, failures = 0\<rparr>, report_after)
   \<and> ''report.pdf'' |\<in>| entries report_world
   \<and> written report_after = [(''report_2.pdf'', ''%PDF-1.4'')]
   \<and> map (\<lambda>row. row ! 6) (ledger report_after) = [''downloaded'']"
  using report_run by (simp add: report_world_def report_after_def)

section \<open>Retries of \<^verbatim>\<open>api_get\<close>\<close>

text \<open>
  The answer to the attempt number \<open>k + 1\<close> of a call that starts in the state \<open>w\<close>:
  the server has then seen the request \<open>k + 1\<close> times after the history of \<open>w\<close>.
\<close>

definition nth_answer :: "server \<Rightarrow> world \<Rightarrow> request \<Rightarrow> nat \<Rightarrow> string + response" where
  "nth_answer srv w rq k = srv (sent w @ replicate (Suc k) rq)"

definition backoffs :: "rat \<Rightarrow> nat \<Rightarrow> rat list" where
  "backoffs backoff n = map (\<lambda>k. backoff * 2 ^ k) [0 ..< n]"

lemma backoffs_Suc: "backoffs backoff (Suc n) = backoff # backoffs (backoff * 2) n"
proof -
  have "[0 ..< Suc n] = 0 # [Suc 0 ..< Suc n]"
    by (rule upt_conv_Cons) simp
  also have "[Suc 0 ..< Suc n] = map Suc [0 ..< n]"
    by (simp only: map_Suc_upt)
  finally show ?thesis
    by (simp add: backoffs_def comp_def mult.assoc del: upt_Suc)
qed

lemma api_get_loop_retry:
  assumes "1 \<le> attempt" "attempt + n \<le> MAX_RETRIES"
    and "\<forall>k<n. \<exists>r. nth_answer srv w rq k = Inr r \<and> retry_status (status_code r)"
    and "nth_answer srv w rq n = Inr resp"
    and "\<not> retry_status (status_code resp) \<or> attempt + n = MAX_RETRIES"
  shows "api_get_loop srv rq attempt backoff bound w
         = (Inr resp, w\<lparr>sent := sent w @ replicate (Suc n) rq,
                        slept := slept w @ backoffs backoff n\<rparr>)"
  using assms
proof (induction n arbitrary: attempt backoff bound w)
  case 0
  then show ?case
    by (subst api_get_loop.simps) (auto simp: nth_answer_def backoffs_def Let_def)
next
  case (Suc n)
  let ?w2 = "w\<lparr>sent := sent w @ [rq], slept := slept w @ [backoff]\<rparr>"
  from Suc.prems(3) obtain r0 where
    r0: "srv (sent w @ [rq]) = Inr r0" "retry_status (status_code r0)"
    by (auto simp: nth_answer_def)
  have shift: "nth_answer srv ?w2 rq k = nth_answer srv w rq (Suc k)" for k
    by (simp add: nth_answer_def)
  have "api_get_loop srv rq (attempt + 1) (backoff * 2) (Some r0) ?w2
        = (Inr resp, ?w2\<lparr>sent := sent ?w2 @ replicate (Suc n) rq,
                          slept := slept ?w2 @ backoffs (backoff * 2) n\<rparr>)"
  proof (rule Suc.IH)
    show "1 \<le> attempt + 1" by simp
    show "attempt + 1 + n \<le> MAX_RETRIES" using Suc.prems(2) by simp
    show "\<forall>k<n. \<exists>r. nth_answer srv ?w2 rq k = Inr r \<and> retry_status (status_code r)"
      using Suc.prems(3) by (simp add: shift)
    show "nth_answer srv ?w2 rq n = Inr resp"
      using Suc.prems(4) by (simp add: shift)
    show "\<not> retry_status (status_code resp) \<or> attempt + 1 + n = MAX_RETRIES"
      using Suc.prems(5) by simp
  qed
  moreover have "attempt \<noteq> MAX_RETRIES" "\<not> MAX_RETRIES < attempt"
    using Suc.prems(2) by simp_all
  ultimately show ?case
    using r0 by (subst api_get_loop.simps) (simp add: Let_def backoffs_Suc)
qed

lemma api_get_loop_raises:
  "attempt \<le> MAX_RETRIES \<Longrightarrow> nth_answer srv w rq 0 = Inl msg
   \<Longrightarrow> api_get_loop srv rq attempt backoff bound w
       = (Inl (RequestException msg), w\<lparr>sent := sent w @ [rq]\<rparr>)"
  by (subst api_get_loop.simps) (simp add: nth_answer_def Let_def)


lemma backoffs_max: "backoffs INITIAL_BACKOFF_SECONDS (MAX_RETRIES - 1) = [3 / 2, 3, 6, 12]"
proof -
  have "MAX_RETRIES - 1 = Suc (Suc (Suc (Suc 0)))"
    by (simp add: MAX_RETRIES_def)
  moreover have "backoffs b 0 = []" for b
    by (simp add: backoffs_def)
  ultimately show ?thesis
    by (simp add: backoffs_Suc INITIAL_BACKOFF_SECONDS_def)
qed

lemma backoffs_four: "backoffs INITIAL_BACKOFF_SECONDS 4 = [3 / 2, 3, 6, 12]"
  using backoffs_max by (simp add: MAX_RETRIES_def)

lemma api_get_returns:
  assumes "n < MAX_RETRIES"
    and "\<forall>k<n. \<exists>r. nth_answer srv w (api_request path token ps stream) k = Inr r
                    \<and> retry_status (status_code r)"
    and "nth_answer srv w (api_request path token ps stream) n = Inr resp"
    and "\<not> retry_status (status_code resp) \<or> Suc n = MAX_RETRIES"
  shows "api_get srv path token ps stream w
         = (Inr resp, w\<lparr>sent := sent w @ replicate (Suc n) (api_request path token ps stream),
                        slept := slept w @ backoffs INITIAL_BACKOFF_SECONDS n\<rparr>)"
  unfolding api_get_def using assms by (intro api_get_loop_retry) auto

lemma fetch_year_aborts:
  assumes "api_get srv ''/signatures.json'' token
             (list_params (fst (build_date_range_for_year today year))
                (snd (build_date_range_for_year today year)) 0) False w = (Inr resp, w1)"
    and "status_code resp \<noteq> 200"
  shows "fetch_signatures_for_year srv today token year w
         = Some (Inl (RuntimeError (''Failed to list signatures: ''
                   @ py_str_int (status_code resp) @ '' '' @ resp_text resp)), w1)"
  using assms
  by (simp add: fetch_signatures_for_year_def split_beta fetch_loop.simps
      [of srv token "fst (build_date_range_for_year today year)"
        "snd (build_date_range_for_year today year)" "[]" 0 w])

text \<open>
  Claim C4. \<^verbatim>\<open>api_get\<close> retries on the status codes 429, 500, 502, 503 and 504 and on
  no other. When the first \<open>n\<close> answers (fewer than \<^verbatim>\<open>MAX_RETRIES\<close>) carry such a code
  and the next does not, it returns that next response after \<open>n + 1\<close> requests, having
  slept before each retry: first \<^verbatim>\<open>INITIAL_BACKOFF_SECONDS\<close>, then twice the delay before.
  A response with another status is returned on the first attempt. When all
  \<^verbatim>\<open>MAX_RETRIES\<close> answers carry such a code, the last one is returned, after the delays
  1.5, 3, 6 and 12 seconds, and no exception is raised. When every answer to the first
  listing request has status 500, \<^verbatim>\<open>main\<close> ends with the \<^verbatim>\<open>RuntimeError\<close> of the lister
  and has written nothing.
\<close>

theorem api_get_retries:
  "(retry_status code \<longleftrightarrow> code \<in> {429, 500, 502, 503, 504})
   \<and> (n < MAX_RETRIES
        \<and> (\<forall>k<n. \<exists>r. nth_answer srv w (api_request path token ps stream) k = Inr r
                     \<and> retry_status (status_code r))
        \<and> nth_answer srv w (api_request path token ps stream) n = Inr resp
        \<and> \<not> retry_status (status_code resp)
      \<longrightarrow> api_get srv path token ps stream w
          = (Inr resp, w\<lparr>sent := sent w @ replicate (Suc n) (api_request path token ps stream),
                         slept := slept w @ backoffs INITIAL_BACKOFF_SECONDS n\<rparr>))
   \<and> (nth_answer srv w (api_request path token ps stream) 0 = Inr resp
        \<and> \<not> retry_status (status_code resp)
      \<longrightarrow> api_get srv path token ps stream w
          = (Inr resp, w\<lparr>sent := sent w @ [api_request path token ps stream]\<rparr>))
   \<and> ((\<forall>k<MAX_RETRIES. \<exists>r. nth_answer srv w (api_request path token ps stream) k = Inr r
                     \<and> retry_status (status_code r))
        \<and> nth_answer srv w (api_request path token ps stream) (MAX_RETRIES - 1) = Inr resp
      \<longrightarrow> api_get srv path token ps stream w
          = (Inr resp, w\<lparr>sent := sent w @ replicate MAX_RETRIES (api_request path token ps stream),
                         slept := slept w @ [3 / 2, 3, 6, 12]\<rparr>))
   \<and> (\<not> (TOKEN env = [] \<or> contains (TOKEN env) PLACEHOLDER)
        \<and> (\<forall>k<MAX_RETRIES. \<exists>r.
              nth_answer srv w
                (api_request ''/signatures.json'' (TOKEN env)
                   (list_params (fst (build_date_range_for_year today year))
                      (snd (build_date_range_for_year today year)) 0) False) k = Inr r
              \<and> status_code r = 500)
      \<longrightarrow> (\<exists>msg w1. main fmt srv today env year w = Some (Inl (RuntimeError msg), w1)
              \<and> length (sent w1) = length (sent w) + MAX_RETRIES
              \<and> slept w1 = slept w @ [3 / 2, 3, 6, 12]
              \<and> ledger w1 = ledger w \<and> written w1 = written w \<and> entries w1 = entries w))"
proof -
  let ?rq = "api_request path token ps stream"
  have codes: "retry_status code \<longleftrightarrow> code \<in> {429, 500, 502, 503, 504}"
    by (simp add: retry_status_def)
  have early: "api_get srv path token ps stream w
          = (Inr resp, w\<lparr>sent := sent w @ replicate (Suc n) ?rq,
                         slept := slept w @ backoffs INITIAL_BACKOFF_SECONDS n\<rparr>)"
    if "n < MAX_RETRIES"
      "\<forall>k<n. \<exists>r. nth_answer srv w ?rq k = Inr r \<and> retry_status (status_code r)"
      "nth_answer srv w ?rq n = Inr resp" "\<not> retry_status (status_code resp)"
    using that by (intro api_get_returns) auto
  have first: "api_get srv path token ps stream w = (Inr resp, w\<lparr>sent := sent w @ [?rq]\<rparr>)"
    if "nth_answer srv w ?rq 0 = Inr resp" "\<not> retry_status (status_code resp)"
    using api_get_returns [of 0 srv w path token ps stream resp] that
    by (simp add: MAX_RETRIES_def backoffs_def)
  have exhausted: "api_get srv path token ps stream w
          = (Inr resp, w\<lparr>sent := sent w @ replicate MAX_RETRIES ?rq,
                         slept := slept w @ [3 / 2, 3, 6, 12]\<rparr>)"
    if "\<forall>k<MAX_RETRIES. \<exists>r. nth_answer srv w ?rq k = Inr r \<and> retry_status (status_code r)"
      "nth_answer srv w ?rq (MAX_RETRIES - 1) = Inr resp"
  proof -
    have "api_get srv path token ps stream w
        = (Inr resp, w\<lparr>sent := sent w @ replicate (Suc (MAX_RETRIES - 1)) ?rq,
                       slept := slept w @ backoffs INITIAL_BACKOFF_SECONDS (MAX_RETRIES - 1)\<rparr>)"
      using that by (intro api_get_returns) (simp_all add: MAX_RETRIES_def)
    then show ?thesis
      by (simp add: MAX_RETRIES_def backoffs_four)
  qed
  have abort: "\<exists>msg w1. main fmt srv today env year w = Some (Inl (RuntimeError msg), w1)
              \<and> length (sent w1) = length (sent w) + MAX_RETRIES
              \<and> slept w1 = slept w @ [3 / 2, 3, 6, 12]
              \<and> ledger w1 = ledger w \<and> written w1 = written w \<and> entries w1 = entries w"
    if tok: "\<not> (TOKEN env = [] \<or> contains (TOKEN env) PLACEHOLDER)"
      and all: "\<forall>k<MAX_RETRIES. \<exists>r.
              nth_answer srv w
                (api_request ''/signatures.json'' (TOKEN env)
                   (list_params (fst (build_date_range_for_year today year))
                      (snd (build_date_range_for_year today year)) 0) False) k = Inr r
              \<and> status_code r = 500"
  proof -
    let ?ps = "list_params (fst (build_date_range_for_year today year))
                      (snd (build_date_range_for_year today year)) 0"
    let ?rq0 = "api_request ''/signatures.json'' (TOKEN env) ?ps False"
    from all [THEN spec, of "MAX_RETRIES - 1"] obtain r where
      r: "nth_answer srv w ?rq0 (MAX_RETRIES - 1) = Inr r" "status_code r = 500"
      by (auto simp: MAX_RETRIES_def)
    let ?w1 = "w\<lparr>sent := sent w @ replicate MAX_RETRIES ?rq0, slept := slept w @ [3 / 2, 3, 6, 12]\<rparr>"
    have "\<exists>r. nth_answer srv w ?rq0 k = Inr r \<and> retry_status (status_code r)"
      if "k < MAX_RETRIES - 1" for k
    proof -
      from that have "k < MAX_RETRIES" by simp
      with all obtain r' where "nth_answer srv w ?rq0 k = Inr r'" "status_code r' = 500"
        by blast
      then show ?thesis
        by (simp add: retry_status_def)
    qed
    then have "api_get srv ''/signatures.json'' (TOKEN env) ?ps False w
        = (Inr r, w\<lparr>sent := sent w @ replicate (Suc (MAX_RETRIES - 1)) ?rq0,
                       slept := slept w @ backoffs INITIAL_BACKOFF_SECONDS (MAX_RETRIES - 1)\<rparr>)"
      using r(1) by (intro api_get_returns) (simp_all add: MAX_RETRIES_def)
    then have "api_get srv ''/signatures.json'' (TOKEN env) ?ps False w = (Inr r, ?w1)"
      by (simp add: MAX_RETRIES_def backoffs_four)
    then have "fetch_signatures_for_year srv today (TOKEN env) year w
         = Some (Inl (RuntimeError (''Failed to list signatures: ''
                   @ py_str_int (status_code r) @ '' '' @ resp_text r)), ?w1)"
      using r(2) by (intro fetch_year_aborts) auto
    with tok show ?thesis
      by (simp add: main_def)
  qed
  show ?thesis
    using codes early first exhausted abort by blast
qed


text \<open>
  The theorem on a server that answers 429 twice and then 200, and on a server that
  always answers 500.
\<close>

definition busy_response :: "int \<Rightarrow> response" where
  "busy_response code = \<lparr>status_code = code, resp_text = ''busy'', content = [], json_body = None\<rparr>"

definition flaky_server :: server where
  "flaky_server history =
     (if length history < 3 then Inr (busy_response 429) else Inr (json_response (JArr [])))"

definition down_server :: server where
  "down_server history = Inr (busy_response 500)"

definition empty_world :: world where
  "empty_world =
     \<lparr>sent = [], slept = [], entries = {||}, written = [], ledger = [], samples = {||},
      dumped = []\<rparr>"

theorem api_get_retries_witness:
  "api_get flaky_server ''/signatures.json'' ''secret'' [] False empty_world
     = (Inr (json_response (JArr [])),
        empty_world\<lparr>sent := replicate 3 (api_request ''/signatures.json'' ''secret'' [] False),
                    slept := [3 / 2, 3]\<rparr>)
   \<and> (\<exists>msg w1. main no_repr down_server example_today (Some ''secret'') 2024 empty_world
                  = Some (Inl (RuntimeError msg), w1)
          \<and> length (sent w1) = 5 \<and> slept w1 = [3 / 2, 3, 6, 12] \<and> ledger w1 = [])"
proof -
  let ?rq = "api_request ''/signatures.json'' ''secret'' [] False"
  have two: "(2::nat) < MAX_RETRIES"
    by (simp add: MAX_RETRIES_def)
  have busy: "\<forall>k<2. \<exists>r. nth_answer flaky_server empty_world ?rq k = Inr r
                 \<and> retry_status (status_code r)"
    by (simp add: nth_answer_def flaky_server_def empty_world_def busy_response_def
        retry_status_def)
  have ok: "nth_answer flaky_server empty_world ?rq 2 = Inr (json_response (JArr []))"
    "\<not> retry_status (status_code (json_response (JArr [])))"
    by (simp_all add: nth_answer_def flaky_server_def empty_world_def json_response_def
        retry_status_def)
  have b2: "backoffs INITIAL_BACKOFF_SECONDS 2 = [3 / 2, 3]"
    by (simp add: backoffs_def INITIAL_BACKOFF_SECONDS_def numeral_2_eq_2)
  have tok: "\<not> (TOKEN (Some ''secret'') = [] \<or> contains (TOKEN (Some ''secret'')) PLACEHOLDER)"
    by (simp add: TOKEN_def contains_def PLACEHOLDER_def)
  have down: "\<forall>k<MAX_RETRIES. \<exists>r.
      nth_answer down_server empty_world
        (api_request ''/signatures.json'' (TOKEN (Some ''secret''))
           (list_params (fst (build_date_range_for_year example_today 2024))
              (snd (build_date_range_for_year example_today 2024)) 0) False) k = Inr r
      \<and> status_code r = 500"
    by (simp add: nth_answer_def down_server_def busy_response_def)
  note inst1 = api_get_retries [where n = 2 and srv = flaky_server and w = empty_world
      and path = "''/signatures.json''" and token = "''secret''" and ps = "[]" and stream = False
      and resp = "json_response (JArr [])"]
  note inst2 = api_get_retries [where srv = down_server and w = empty_world
      and env = "Some ''secret''" and today = example_today and year = 2024 and fmt = no_repr]
  from inst1 two busy ok have
    "api_get flaky_server ''/signatures.json'' ''secret'' [] False empty_world
     = (Inr (json_response (JArr [])),
        empty_world\<lparr>sent := sent empty_world @ replicate (Suc 2) ?rq,
                    slept := slept empty_world @ backoffs INITIAL_BACKOFF_SECONDS 2\<rparr>)"
    by blast
  then have first: "api_get flaky_server ''/signatures.json'' ''secret'' [] False empty_world
     = (Inr (json_response (JArr [])), empty_world\<lparr>sent := replicate 3 ?rq, slept := [3 / 2, 3]\<rparr>)"
    by (simp add: b2 empty_world_def numeral_3_eq_3)
  from inst2 tok down have
    "\<exists>msg w1. main no_repr down_server example_today (Some ''secret'') 2024 empty_world
                  = Some (Inl (RuntimeError msg), w1)
          \<and> length (sent w1) = length (sent empty_world) + MAX_RETRIES
          \<and> slept w1 = slept empty_world @ [3 / 2, 3, 6, 12]
          \<and> ledger w1 = ledger empty_world \<and> written w1 = written empty_world
          \<and> entries w1 = entries empty_world"
    by blast
  then have second: "\<exists>msg w1. main no_repr down_server example_today (Some ''secret'') 2024 empty_world
                  = Some (Inl (RuntimeError msg), w1)
          \<and> length (sent w1) = 5 \<and> slept w1 = [3 / 2, 3, 6, 12] \<and> ledger w1 = []"
    by (auto simp: empty_world_def MAX_RETRIES_def)
  from first second show ?thesis by blast
qed

section \<open>Pages of \<^verbatim>\<open>fetch_signatures_for_year\<close>\<close>

text \<open>
  The state in which the request for page \<open>k\<close> (offset \<open>k * PAGE_LIMIT\<close>) is made, and
  what \<^verbatim>\<open>api_get\<close> returns for it, when the pages before it were requested in turn
  from the state \<open>w\<close>.
\<close>

fun page_state :: "server \<Rightarrow> string \<Rightarrow> string \<Rightarrow> string \<Rightarrow> world \<Rightarrow> nat \<Rightarrow> world" where
  "page_state srv token since until w 0 = w"
| "page_state srv token since until w (Suc k) =
     snd (api_get srv ''/signatures.json'' token (list_params since until (k * PAGE_LIMIT)) False
            (page_state srv token since until w k))"

definition page_answer ::
  "server \<Rightarrow> string \<Rightarrow> string \<Rightarrow> string \<Rightarrow> world \<Rightarrow> nat \<Rightarrow> py_error + response" where
  "page_answer srv token since until w k =
     fst (api_get srv ''/signatures.json'' token (list_params since until (k * PAGE_LIMIT)) False
            (page_state srv token since until w k))"

text \<open>
  The records of a page: those of a response with status 200 whose body decodes to
  something empty or iterable.
\<close>

definition page_elems :: "py_error + response \<Rightarrow> json list option" where
  "page_elems r =
     (case r of
        Inl e \<Rightarrow> None
      | Inr resp \<Rightarrow>
          if status_code resp \<noteq> 200 then None
          else (case json_body resp of
                  None \<Rightarrow> None
                | Some page \<Rightarrow>
                    if \<not> truthy page then Some []
                    else (case py_iter page of Inl e \<Rightarrow> None | Inr elems \<Rightarrow> Some elems)))"

lemma api_get_page:
  "api_get srv ''/signatures.json'' token (list_params since until (k * PAGE_LIMIT)) False
     (page_state srv token since until w k)
   = (page_answer srv token since until w k, page_state srv token since until w (Suc k))"
  by (simp add: page_answer_def)

lemma fetch_loop_full:
  assumes "page_elems (page_answer srv token since until w k) = Some es" "PAGE_LIMIT \<le> length es"
  shows "fetch_loop srv token since until collected (k * PAGE_LIMIT)
           (page_state srv token since until w k)
         = fetch_loop srv token since until (collected @ es) (Suc k * PAGE_LIMIT)
             (page_state srv token since until w (Suc k))"
proof -
  have "es \<noteq> []" "\<not> length es < PAGE_LIMIT"
    using assms(2) by (auto simp: PAGE_LIMIT_def)
  with assms(1) show ?thesis
    by (subst fetch_loop.simps)
       (auto simp: api_get_page page_elems_def add.commute
         split: sum.splits if_splits option.splits simp del: page_state.simps)
qed

lemma fetch_loop_short:
  assumes "page_elems (page_answer srv token since until w k) = Some es" "length es < PAGE_LIMIT"
  shows "fetch_loop srv token since until collected (k * PAGE_LIMIT)
           (page_state srv token since until w k)
         = Some (Inr (collected @ es), page_state srv token since until w (Suc k))"
  using assms
  by (subst fetch_loop.simps)
     (auto simp: api_get_page page_elems_def
       split: sum.splits if_splits option.splits simp del: page_state.simps)

lemma fetch_loop_refused:
  assumes "page_answer srv token since until w k = Inr resp" "status_code resp \<noteq> 200"
  shows "fetch_loop srv token since until collected (k * PAGE_LIMIT)
           (page_state srv token since until w k)
         = Some (Inl (RuntimeError (''Failed to list signatures: ''
                   @ py_str_int (status_code resp) @ '' '' @ resp_text resp)),
                 page_state srv token since until w (Suc k))"
  using assms
  by (subst fetch_loop.simps) (simp add: api_get_page del: page_state.simps)

lemma fetch_loop_skip:
  assumes "\<forall>k<n. \<exists>es. page_elems (page_answer srv token since until w k) = Some es
                  \<and> PAGE_LIMIT \<le> length es"
    and "j \<le> n"
  shows "fetch_loop srv token since until collected (j * PAGE_LIMIT)
           (page_state srv token since until w j)
         = fetch_loop srv token since until
             (collected @ concat (map (\<lambda>k. the (page_elems (page_answer srv token since until w k)))
                                    [j ..< n]))
             (n * PAGE_LIMIT) (page_state srv token since until w n)"
  using assms(2)
proof (induction "n - j" arbitrary: j collected)
  case 0
  then show ?case by simp
next
  case (Suc d)
  then have lt: "j < n" by simp
  with assms(1) obtain es where
    es: "page_elems (page_answer srv token since until w j) = Some es" "PAGE_LIMIT \<le> length es"
    by blast
  have "fetch_loop srv token since until (collected @ es) (Suc j * PAGE_LIMIT)
           (page_state srv token since until w (Suc j))
        = fetch_loop srv token since until
             ((collected @ es)
              @ concat (map (\<lambda>k. the (page_elems (page_answer srv token since until w k)))
                          [Suc j ..< n]))
             (n * PAGE_LIMIT) (page_state srv token since until w n)"
    using Suc.hyps(2) lt by (intro Suc.hyps(1)) simp_all
  then show ?case
    using fetch_loop_full [OF es, of collected] lt es(1)
    by (simp add: upt_conv_Cons del: page_state.simps)
qed


text \<open>
  Claim C5. \<^verbatim>\<open>fetch_signatures_for_year\<close> requests page \<open>k\<close> with the limit
  \<^verbatim>\<open>PAGE_LIMIT\<close> and the offset \<open>k * PAGE_LIMIT\<close>. When the first \<open>n\<close> pages are full
  and page \<open>n\<close> is empty or shorter than \<^verbatim>\<open>PAGE_LIMIT\<close>, it returns, after exactly these
  \<open>n + 1\<close> page requests, the records of all the pages, in the order fetched. When
  instead the answer for page \<open>n\<close> has a status other than 200, it raises the
  \<^verbatim>\<open>RuntimeError\<close> and returns no record.
\<close>

theorem fetch_signatures_for_year_pages:
  "build_date_range_for_year today year = (since, until) \<longrightarrow>
     list_params since until (k * PAGE_LIMIT)
       = [(''status'', ''completed''), (''since'', since), (''until'', until),
          (''limit'', ''100''), (''offset'', decimal (k * 100))]
     \<and> ((\<forall>k<n. \<exists>es. page_elems (page_answer srv token since until w k) = Some es
                    \<and> PAGE_LIMIT \<le> length es)
          \<and> page_elems (page_answer srv token since until w n) = Some last_page
          \<and> length last_page < PAGE_LIMIT
        \<longrightarrow> fetch_signatures_for_year srv today token year w
            = Some (Inr (concat (map (\<lambda>k. the (page_elems (page_answer srv token since until w k)))
                                   [0 ..< Suc n])),
                    page_state srv token since until w (Suc n)))
     \<and> ((\<forall>k<n. \<exists>es. page_elems (page_answer srv token since until w k) = Some es
                    \<and> PAGE_LIMIT \<le> length es)
          \<and> page_answer srv token since until w n = Inr resp
          \<and> status_code resp \<noteq> 200
        \<longrightarrow> fetch_signatures_for_year srv today token year w
            = Some (Inl (RuntimeError (''Failed to list signatures: ''
                      @ py_str_int (status_code resp) @ '' '' @ resp_text resp)),
                    page_state srv token since until w (Suc n)))"
proof (intro impI conjI)
  assume range: "build_date_range_for_year today year = (since, until)"
  have "decimal PAGE_LIMIT = ''100''"
    by (simp add: PAGE_LIMIT_def decimal.simps digit_char_def)
  then show "list_params since until (k * PAGE_LIMIT)
       = [(''status'', ''completed''), (''since'', since), (''until'', until),
          (''limit'', ''100''), (''offset'', decimal (k * 100))]"
    by (simp add: list_params_def) (simp add: PAGE_LIMIT_def)
  have start: "fetch_signatures_for_year srv today token year w
      = fetch_loop srv token since until [] (0 * PAGE_LIMIT) (page_state srv token since until w 0)"
    using range by (simp add: fetch_signatures_for_year_def)
  {
    assume a: "(\<forall>k<n. \<exists>es. page_elems (page_answer srv token since until w k) = Some es
                    \<and> PAGE_LIMIT \<le> length es)
          \<and> page_elems (page_answer srv token since until w n) = Some last_page
          \<and> length last_page < PAGE_LIMIT"
    then have "fetch_loop srv token since until [] (0 * PAGE_LIMIT)
                 (page_state srv token since until w 0)
        = Some (Inr (concat (map (\<lambda>k. the (page_elems (page_answer srv token since until w k)))
                               [0 ..< n]) @ last_page),
                page_state srv token since until w (Suc n))"
      using fetch_loop_skip [of n srv token since until w 0 "[]"]
        fetch_loop_short [of srv token since until w n last_page]
      by (simp del: page_state.simps)
    with a show "fetch_signatures_for_year srv today token year w
            = Some (Inr (concat (map (\<lambda>k. the (page_elems (page_answer srv token since until w k)))
                                   [0 ..< Suc n])),
                    page_state srv token since until w (Suc n))"
      by (simp add: start del: page_state.simps)
  }
  {
    assume a: "(\<forall>k<n. \<exists>es. page_elems (page_answer srv token since until w k) = Some es
                    \<and> PAGE_LIMIT \<le> length es)
          \<and> page_answer srv token since until w n = Inr resp
          \<and> status_code resp \<noteq> 200"
    then show "fetch_signatures_for_year srv today token year w
            = Some (Inl (RuntimeError (''Failed to list signatures: ''
                      @ py_str_int (status_code resp) @ '' '' @ resp_text resp)),
                    page_state srv token since until w (Suc n))"
      using fetch_loop_skip [of n srv token since until w 0 "[]"]
        fetch_loop_refused [of srv token since until w n resp]
      by (simp add: start del: page_state.simps)
  }
qed


text \<open>
  The theorem on a server with two full pages of 100 records and a last page of 3: the
  lister returns the 203 records after the requests with the offsets 0, 100 and 200.
\<close>

definition paged_server :: server where
  "paged_server history =
     (case map_of (params (last history)) ''offset'' of
        None \<Rightarrow> Inr not_found
      | Some off \<Rightarrow>
          if off = ''0'' \<or> off = ''100''
          then Inr (json_response (JArr (replicate 100 (JObj []))))
          else Inr (json_response (JArr (replicate 3 (JObj [])))))"

lemma paged_api_get:
  "api_get paged_server ''/signatures.json'' token (list_params since until off) False w
   = (Inr (json_response (JArr (replicate
             (if decimal off = ''0'' \<or> decimal off = ''100'' then 100 else 3) (JObj [])))),
      w\<lparr>sent := sent w @ [api_request ''/signatures.json'' token (list_params since until off) False]\<rparr>)"
proof -
  let ?rq = "api_request ''/signatures.json'' token (list_params since until off) False"
  let ?resp = "json_response (JArr (replicate
             (if decimal off = ''0'' \<or> decimal off = ''100'' then 100 else 3) (JObj [])))"
  have "nth_answer paged_server w ?rq 0 = Inr ?resp"
    by (simp add: nth_answer_def paged_server_def api_request_def list_params_def)
  moreover have "status_code ?resp = 200"
    by (simp add: json_response_def)
  ultimately have
    "api_get paged_server ''/signatures.json'' token (list_params since until off) False w
      = (Inr ?resp, w\<lparr>sent := sent w @ replicate (Suc 0) ?rq,
                      slept := slept w @ backoffs INITIAL_BACKOFF_SECONDS 0\<rparr>)"
    by (intro api_get_returns) (simp_all add: MAX_RETRIES_def retry_status_def)
  then show ?thesis
    by (simp add: backoffs_def)
qed

theorem fetch_signatures_for_year_pages_witness:
  "map_option (\<lambda>(r, w). (r, map (\<lambda>rq. map_of (params rq) ''offset'') (sent w)))
     (fetch_signatures_for_year paged_server example_today ''secret'' 2024 empty_world)
   = Some (Inr (replicate 203 (JObj [])), [Some ''0'', Some ''100'', Some ''200''])"
proof -
  let ?since = "''2024-01-01''" and ?until = "''2024-12-31''"
  let ?answer = "page_answer paged_server ''secret'' ?since ?until empty_world"
  let ?state = "page_state paged_server ''secret'' ?since ?until empty_world"
  have range: "build_date_range_for_year example_today 2024 = (?since, ?until)"
    by (simp add: build_date_range_for_year_def example_today_def py_str_int_def decimal.simps
        digit_char_def)
  have dec: "decimal 0 = ''0''" "decimal 100 = ''100''" "decimal 200 = ''200''"
    by (simp_all add: decimal.simps digit_char_def)
  have offs: "map_of (list_params ?since ?until off) ''offset'' = Some (decimal off)" for off
    by (simp add: list_params_def)
  have answer: "?answer k = Inr (json_response (JArr (replicate
      (if decimal (k * PAGE_LIMIT) = ''0'' \<or> decimal (k * PAGE_LIMIT) = ''100'' then 100 else 3)
      (JObj []))))" for k
    by (simp add: page_answer_def paged_api_get del: page_state.simps)
  have state: "?state (Suc k) = (?state k)\<lparr>sent := sent (?state k)
      @ [api_request ''/signatures.json'' ''secret'' (list_params ?since ?until (k * PAGE_LIMIT)) False]\<rparr>"
    for k
    by (simp add: paged_api_get)
  have a0: "page_elems (?answer 0) = Some (replicate 100 (JObj []))"
    and a1: "page_elems (?answer 1) = Some (replicate 100 (JObj []))"
    and a2: "page_elems (?answer 2) = Some (replicate 3 (JObj []))"
    by (simp_all add: answer dec PAGE_LIMIT_def page_elems_def json_response_def truthy_def
        py_iter_def)
  have full: "\<forall>k<2. \<exists>es. page_elems (?answer k) = Some es \<and> PAGE_LIMIT \<le> length es"
  proof (intro allI impI)
    fix k :: nat
    assume "k < 2"
    then have "k = 0 \<or> k = 1" by auto
    then show "\<exists>es. page_elems (?answer k) = Some es \<and> PAGE_LIMIT \<le> length es"
      using a0 a1 by (auto simp: PAGE_LIMIT_def)
  qed
  have short: "length (replicate 3 (JObj [])) < PAGE_LIMIT"
    by (simp add: PAGE_LIMIT_def)
  note inst = fetch_signatures_for_year_pages [where today = example_today and year = 2024
      and since = ?since and until = ?until and n = 2 and srv = paged_server
      and token = "''secret''" and w = empty_world and last_page = "replicate 3 (JObj [])"]
  from inst range full a2 short have run:
    "fetch_signatures_for_year paged_server example_today ''secret'' 2024 empty_world
     = Some (Inr (concat (map (\<lambda>k. the (page_elems (?answer k))) [0 ..< Suc 2])), ?state (Suc 2))"
    by blast
  have upt: "[0 ..< Suc 2] = [0, 1, 2]"
    by (simp add: numeral_2_eq_2)
  have records: "concat (map (\<lambda>k. the (page_elems (?answer k))) [0 ..< Suc 2])
      = replicate 203 (JObj [])"
    unfolding upt using a0 a1 a2 by (simp add: replicate_add [symmetric])
  have "?state (Suc 2) = empty_world\<lparr>sent :=
      [api_request ''/signatures.json'' ''secret'' (list_params ?since ?until 0) False,
       api_request ''/signatures.json'' ''secret'' (list_params ?since ?until 100) False,
       api_request ''/signatures.json'' ''secret'' (list_params ?since ?until 200) False]\<rparr>"
    using state [of 0] state [of 1] state [of 2]
    by (simp add: numeral_2_eq_2 PAGE_LIMIT_def empty_world_def del: page_state.simps(2))
  then have requests: "map (\<lambda>rq. map_of (params rq) ''offset'') (sent (?state (Suc 2)))
      = [Some ''0'', Some ''100'', Some ''200'']"
    by (simp add: api_request_def offs dec)
  show ?thesis
    unfolding run records using requests by simp
qed

section \<open>What \<^verbatim>\<open>extract_emails\<close> returns\<close>

subsection \<open>The strategies, as the specification words them\<close>

text \<open>The distinct elements of a list in the order of their first occurrence.\<close>

definition first_seen :: "string list \<Rightarrow> string list" where
  "first_seen xs = foldl (\<lambda>acc x. if x \<in> set acc then acc else acc @ [x]) [] xs"

text \<open>The candidates that are strings and, stripped, match the email pattern.\<close>

definition valid_emails :: "json list \<Rightarrow> string list" where
  "valid_emails cands =
     concat (map (\<lambda>c. case c of JStr s \<Rightarrow> (if is_email (strip s) then [strip s] else [])
                              | _ \<Rightarrow> []) cands)"

text \<open>
  The candidates of one entry of a structured collection: its direct email field and
  then, when the entry embeds a user object, that object's email field as well.
\<close>

definition item_candidates :: "json \<Rightarrow> json list" where
  "item_candidates it =
     (case it of
        JObj kvs \<Rightarrow>
          dict_get kvs ''email'' JNull
          # (case dict_get kvs ''user'' JNull of
               JObj ukvs \<Rightarrow> [dict_get ukvs ''email'' JNull]
             | _ \<Rightarrow> [])
      | _ \<Rightarrow> [])"

definition structured_candidates :: "(string \<times> json) list \<Rightarrow> json list" where
  "structured_candidates container =
     concat (map (\<lambda>key. case dict_get container key JNull of
                           JArr items \<Rightarrow> concat (map item_candidates items)
                         | _ \<Rightarrow> [])
               [''signers'', ''recipients'', ''participants''])"

text \<open>The string leaves of a value, dict keys left out, in document order.\<close>

fun string_leaves :: "json \<Rightarrow> string list"
  and leaves_list :: "json list \<Rightarrow> string list"
  and leaves_values :: "(string \<times> json) list \<Rightarrow> string list" where
  "string_leaves (JObj kvs) = leaves_values kvs"
| "string_leaves (JArr vs) = leaves_list vs"
| "string_leaves (JStr s) = [s]"
| "string_leaves JNull = []"
| "string_leaves (JBool b) = []"
| "string_leaves (JInt i) = []"
| "string_leaves (JFloat r) = []"
| "leaves_list [] = []"
| "leaves_list (v # vs) = string_leaves v @ leaves_list vs"
| "leaves_values [] = []"
| "leaves_values (kv # kvs) = string_leaves (snd kv) @ leaves_values kvs"

definition structured_scan :: "json \<Rightarrow> string list" where
  "structured_scan v =
     (if is_dict v then first_seen (valid_emails (structured_candidates (items_of v))) else [])"

definition deep_scan :: "json \<Rightarrow> string list" where
  "deep_scan v =
     (if is_dict v
      then first_seen (valid_emails (map JStr (concat (map findall_email (string_leaves v)))))
      else [])"

fun first_nonempty :: "string list list \<Rightarrow> string list" where
  "first_nonempty [] = []"
| "first_nonempty (xs # xss) = (if xs \<noteq> [] then xs else first_nonempty xss)"

subsection \<open>The program follows them\<close>

definition keep_first :: "string list \<Rightarrow> string \<Rightarrow> string list" where
  "keep_first acc x = (if x \<in> set acc then acc else acc @ [x])"

lemma first_seen_keep: "first_seen xs = foldl keep_first [] xs"
  by (simp add: first_seen_def keep_first_def [abs_def])

lemma add_email_valid: "add_email acc c = foldl keep_first acc (valid_emails [c])"
  by (cases c) (simp_all add: add_email_def valid_emails_def keep_first_def Let_def)

lemma valid_emails_append: "valid_emails (xs @ ys) = valid_emails xs @ valid_emails ys"
  by (simp add: valid_emails_def)

lemma valid_emails_Cons: "valid_emails (x # xs) = valid_emails [x] @ valid_emails xs"
  by (simp add: valid_emails_def)

lemma foldl_add_email: "foldl add_email acc cands = foldl keep_first acc (valid_emails cands)"
proof (induction cands arbitrary: acc)
  case Nil
  show ?case by (simp add: valid_emails_def)
next
  case (Cons c cands)
  have "foldl add_email acc (c # cands) = foldl add_email (add_email acc c) cands"
    by simp
  also have "\<dots> = foldl keep_first (add_email acc c) (valid_emails cands)"
    by (rule Cons.IH)
  also have "\<dots> = foldl keep_first (foldl keep_first acc (valid_emails [c])) (valid_emails cands)"
    by (simp only: add_email_valid)
  also have "\<dots> = foldl keep_first acc (valid_emails (c # cands))"
    by (simp add: valid_emails_Cons [of c cands])
  finally show ?case .
qed

lemma harvest_item_candidates: "harvest_item acc it = foldl add_email acc (item_candidates it)"
  by (auto simp: harvest_item_def item_candidates_def Let_def split: json.splits)

lemma harvest_items_candidates:
  "foldl harvest_item acc items = foldl add_email acc (concat (map item_candidates items))"
  by (induction items arbitrary: acc) (simp_all add: harvest_item_candidates)

lemma harvest_from_candidates:
  "harvest_from acc container = foldl add_email acc (structured_candidates container)"
  by (simp add: harvest_from_def harvest_key_def structured_candidates_def
      harvest_items_candidates split: json.splits)

lemma walk_leaves:
  "walk acc v = foldl add_email acc (map JStr (concat (map findall_email (string_leaves v))))"
  "walk_list acc vs = foldl add_email acc (map JStr (concat (map findall_email (leaves_list vs))))"
  "walk_values acc kvs
     = foldl add_email acc (map JStr (concat (map findall_email (leaves_values kvs))))"
  by (induction acc v and acc vs and acc kvs rule: walk_walk_list_walk_values.induct)
     (simp_all add: foldl_map)

lemma keep_first_distinct: "distinct acc \<Longrightarrow> distinct (foldl keep_first acc xs)"
  by (induction xs arbitrary: acc) (simp_all add: keep_first_def)

lemma keep_first_set: "set (foldl keep_first acc xs) = set acc \<union> set xs"
  by (induction xs arbitrary: acc) (auto simp: keep_first_def)

lemma valid_emails_are: "e \<in> set (valid_emails cands) \<Longrightarrow> is_email e"
  by (auto simp: valid_emails_def split: json.splits if_splits)

lemma structured_harvest:
  "is_dict v \<Longrightarrow> harvest_from [] (items_of v) = structured_scan v"
  by (simp add: structured_scan_def harvest_from_candidates foldl_add_email first_seen_keep)

lemma deep_walk: "is_dict v \<Longrightarrow> walk [] v = deep_scan v"
  by (simp add: deep_scan_def walk_leaves foldl_add_email first_seen_keep)

lemma scan_not_dict: "\<not> is_dict v \<Longrightarrow> structured_scan v = []" "\<not> is_dict v \<Longrightarrow> deep_scan v = []"
  by (simp_all add: structured_scan_def deep_scan_def)

lemma extract_emails_strategies:
  "extract_emails sig_summary sig_detail
   = first_nonempty [structured_scan sig_detail, structured_scan sig_summary,
                     deep_scan sig_detail, deep_scan sig_summary]"
  by (cases "is_dict sig_detail"; cases "is_dict sig_summary")
     (simp_all add: extract_emails_def Let_def structured_harvest deep_walk scan_not_dict)

lemma scan_distinct: "distinct (structured_scan v)" "distinct (deep_scan v)"
  by (simp_all add: structured_scan_def deep_scan_def first_seen_keep keep_first_distinct)

lemma scan_valid:
  "e \<in> set (structured_scan v) \<Longrightarrow> is_email e" "e \<in> set (deep_scan v) \<Longrightarrow> is_email e"
  by (auto simp: structured_scan_def deep_scan_def first_seen_keep keep_first_set
      dest: valid_emails_are split: if_splits)


lemmas scan_eval =
  structured_scan_def deep_scan_def first_seen_def valid_emails_def structured_candidates_def
  item_candidates_def is_dict_def items_of_def dict_get_def is_email_def match_email_at_def
  inner_dot_def email_char_def is_space_def strip_def Let_def

text \<open>
  Claim C6, as amended. \<^verbatim>\<open>extract_emails\<close> returns the first non-empty result among,
  in this order: the structured scan of \<^verbatim>\<open>detail\<close>, the structured scan of
  \<^verbatim>\<open>summary\<close>, the deep scan of \<^verbatim>\<open>detail\<close> and the deep scan of \<^verbatim>\<open>summary\<close> (each
  empty for a value that is not a dict). A structured scan takes, from every entry of
  \<^verbatim>\<open>signers\<close>, \<^verbatim>\<open>recipients\<close> and \<^verbatim>\<open>participants\<close>, the direct email field and also
  the email field of an embedded user object; a deep scan takes every match of the
  email pattern in every string leaf. The result holds validated emails only, each once,
  in the order first seen; two signers with the email \<^verbatim>\<open>a@x.com\<close> give \<^verbatim>\<open>["a@x.com"]\<close>.
\<close>

theorem extract_emails_first_strategy:
  "extract_emails sig_summary sig_detail
     = first_nonempty [structured_scan sig_detail, structured_scan sig_summary,
                       deep_scan sig_detail, deep_scan sig_summary]
   \<and> distinct (extract_emails sig_summary sig_detail)
   \<and> (\<forall>e \<in> set (extract_emails sig_summary sig_detail). is_email e)
   \<and> item_candidates (JObj kvs)
       = dict_get kvs ''email'' JNull
         # (case dict_get kvs ''user'' JNull of
              JObj ukvs \<Rightarrow> [dict_get ukvs ''email'' JNull]
            | _ \<Rightarrow> [])
   \<and> extract_emails sig_summary
        (JObj [(''signers'', JArr [JObj [(''email'', JStr ''a@x.com'')],
                                   JObj [(''email'', JStr ''a@x.com'')]])])
       = [''a@x.com'']"
proof -
  let ?scans = "[structured_scan sig_detail, structured_scan sig_summary,
                 deep_scan sig_detail, deep_scan sig_summary]"
  have eq: "extract_emails sig_summary sig_detail = first_nonempty ?scans"
    by (rule extract_emails_strategies)
  have "distinct (first_nonempty ?scans)"
    by (simp add: scan_distinct)
  moreover have "\<forall>e \<in> set (first_nonempty ?scans). is_email e"
    by (auto dest: scan_valid split: if_splits)
  moreover have "structured_scan (JObj [(''signers'', JArr [JObj [(''email'', JStr ''a@x.com'')],
                                   JObj [(''email'', JStr ''a@x.com'')]])]) = [''a@x.com'']"
    by (simp add: scan_eval)
  then have "extract_emails sig_summary
        (JObj [(''signers'', JArr [JObj [(''email'', JStr ''a@x.com'')],
                                   JObj [(''email'', JStr ''a@x.com'')]])])
       = [''a@x.com'']"
    by (simp add: extract_emails_strategies)
  moreover have "item_candidates (JObj kvs)
       = dict_get kvs ''email'' JNull
         # (case dict_get kvs ''user'' JNull of
              JObj ukvs \<Rightarrow> [dict_get ukvs ''email'' JNull]
            | _ \<Rightarrow> [])"
    by (simp add: item_candidates_def)
  ultimately show ?thesis
    using eq by simp
qed

text \<open>
  The theorem on a record without structured emails, whose note holds an address, and on
  the two signers with the same email.
\<close>

theorem extract_emails_first_strategy_witness:
  "extract_emails (JObj [(''note'', JStr ''mail q@r.st now'')]) JNull = [''q@r.st'']
   \<and> extract_emails JNull
        (JObj [(''signers'', JArr [JObj [(''email'', JStr ''a@x.com'')],
                                   JObj [(''email'', JStr ''a@x.com'')]])])
       = [''a@x.com'']"
proof -
  note inst = extract_emails_first_strategy
    [where sig_summary = "JObj [(''note'', JStr ''mail q@r.st now'')]" and sig_detail = JNull]
  have "structured_scan (JObj [(''note'', JStr ''mail q@r.st now'')]) = []"
    "deep_scan (JObj [(''note'', JStr ''mail q@r.st now'')]) = [''q@r.st'']"
    "structured_scan JNull = []" "deep_scan JNull = []"
    by (simp_all add: scan_eval)
  with inst have "extract_emails (JObj [(''note'', JStr ''mail q@r.st now'')]) JNull = [''q@r.st'']"
    by simp
  moreover have "extract_emails JNull
        (JObj [(''signers'', JArr [JObj [(''email'', JStr ''a@x.com'')],
                                   JObj [(''email'', JStr ''a@x.com'')]])])
       = [''a@x.com'']"
    using extract_emails_first_strategy [where sig_summary = JNull] by blast
  ultimately show ?thesis by blast
qed

text \<open>
  Claim C6 as stated fails where it takes the user object's email only when the direct
  field is absent: an entry with both yields both.
\<close>

theorem extract_emails_user_counterexample:
  "extract_emails (JObj [])
     (JObj [(''signers'', JArr [JObj [(''email'', JStr ''a@x.com''),
                                      (''user'', JObj [(''email'', JStr ''b@x.com'')])]])])
   = [''a@x.com'', ''b@x.com'']"
proof -
  have "structured_scan
     (JObj [(''signers'', JArr [JObj [(''email'', JStr ''a@x.com''),
                                      (''user'', JObj [(''email'', JStr ''b@x.com'')])]])])
   = [''a@x.com'', ''b@x.com'']"
    by (simp add: scan_eval)
  then show ?thesis
    by (simp add: extract_emails_strategies)
qed

section \<open>The email pattern\<close>

text \<open>
  The language of \<^verbatim>\<open>^[^@\s]+@[^@\s]+\.[^@\s]+$\<close>: three non-empty runs of the class,
  with \<^verbatim>\<open>@\<close> after the first and a dot after the second.
\<close>

lemma email_char_dot: "email_char CHR ''.''" "\<not> email_char CHR ''@''"
  by (simp_all add: email_char_def is_space_def)

lemma is_email_iff:
  "is_email s \<longleftrightarrow>
     (\<exists>l d t. s = l @ ''@'' @ d @ ''.'' @ t \<and> l \<noteq> [] \<and> d \<noteq> [] \<and> t \<noteq> []
        \<and> list_all email_char l \<and> list_all email_char d \<and> list_all email_char t)"
proof
  assume e: "is_email s"
  let ?l = "takeWhile email_char s"
  from e obtain dom where l: "?l \<noteq> []" and r: "dropWhile email_char s = CHR ''@'' # dom"
    and a: "list_all email_char dom" and i: "CHR ''.'' \<in> set (butlast (tl dom))"
    by (auto simp: is_email_def Let_def inner_dot_def split: list.splits)
  from i obtain p q where pq: "butlast (tl dom) = p @ CHR ''.'' # q"
    by (auto dest: split_list)
  then have ne: "tl dom \<noteq> []" "dom \<noteq> []"
    by auto
  have dom: "dom = (hd dom # p) @ ''.'' @ (q @ [last (tl dom)])"
    using ne pq append_butlast_last_id [of "tl dom"] hd_Cons_tl [of dom] by simp
  have s: "s = ?l @ ''@'' @ dom"
    using takeWhile_dropWhile_id [of email_char s] r by simp
  have "list_all email_char (hd dom # p)" "list_all email_char (q @ [last (tl dom)])"
    using a by (subst (asm) dom, simp)+
  moreover have "list_all email_char ?l"
    by (simp add: list_all_iff) (meson set_takeWhileD)
  moreover have "s = ?l @ ''@'' @ (hd dom # p) @ ''.'' @ (q @ [last (tl dom)])"
    using s dom by simp
  ultimately show "\<exists>l d t. s = l @ ''@'' @ d @ ''.'' @ t \<and> l \<noteq> [] \<and> d \<noteq> [] \<and> t \<noteq> []
        \<and> list_all email_char l \<and> list_all email_char d \<and> list_all email_char t"
    using l by blast
next
  assume "\<exists>l d t. s = l @ ''@'' @ d @ ''.'' @ t \<and> l \<noteq> [] \<and> d \<noteq> [] \<and> t \<noteq> []
        \<and> list_all email_char l \<and> list_all email_char d \<and> list_all email_char t"
  then obtain l d t where s: "s = l @ ''@'' @ d @ ''.'' @ t" and ne: "l \<noteq> []" "d \<noteq> []" "t \<noteq> []"
    and a: "list_all email_char l" "list_all email_char d" "list_all email_char t"
    by blast
  have tw: "takeWhile email_char s = l"
    using a(1) by (simp add: s list_all_iff email_char_dot)
  have dw: "dropWhile email_char s = CHR ''@'' # d @ CHR ''.'' # t"
    using a(1) by (simp add: s list_all_iff email_char_dot)
  obtain x d' where d: "d = x # d'"
    using ne(2) by (cases d) auto
  obtain t' y where t: "t = t' @ [y]"
    using ne(3) by (cases t rule: rev_cases) auto
  have "butlast (tl (d @ CHR ''.'' # t)) = d' @ CHR ''.'' # t'"
    by (simp add: d t butlast_append)
  then have "inner_dot (d @ CHR ''.'' # t)"
    by (simp add: inner_dot_def)
  then show "is_email s"
    using ne(1) a by (simp add: is_email_def tw dw email_char_dot)
qed

section \<open>One row for every document\<close>












lemma dump_debug_frame [simp]: "written (dump_debug fmt sig_id detail w) = written w"
  by (simp add: dump_debug_def Let_def)











section \<open>The name of a downloaded file\<close>

lemma is_email_nonempty: "is_email e \<Longrightarrow> e \<noteq> []"
  by (auto simp: is_email_def Let_def)

lemma join_nonempty: "emails \<noteq> [] \<Longrightarrow> \<forall>e \<in> set emails. e \<noteq> [] \<Longrightarrow> join sep emails \<noteq> []"
  by (induction sep emails rule: join.induct) auto

lemma process_doc_downloaded:
  assumes "doc_names fmt doc = Inr (did, orig)"
    and "safe_name_of (base_name_of fmt email_used orig) = Inr nm"
    and "make_unique_filename (entries w) nm = out"
    and "download_signed_pdf fmt srv token sig_id did w = (Inr pdf, w1)"
  shows "process_doc fmt srv token year sig_id created_at email_used doc (t, w)
         = (Inr (t\<lparr>downloaded := downloaded t + 1\<rparr>),
            w1\<lparr>entries := finsert out (entries w1),
               written := written w1 @ [(out, pdf)],
               ledger := ledger w1 @ [log_row fmt year sig_id did email_used orig out created_at
                                        ''downloaded'' []]\<rparr>)"
  using assms make_unique_filename_free [of "entries w" nm]
  by (simp add: process_doc_def Let_def)

lemma process_signature_with_emails:
  assumes "sg = JObj kvs"
    and "dict_get kvs ''id'' JNull = sid"
    and "dict_get kvs ''created_at'' (JStr []) = created"
    and "dict_get kvs ''documents'' (JArr []) = JArr docs"
    and "fetch_signature_detail fmt srv token sid w = (Inr detail, w1)"
    and "extract_emails sg detail = emails"
    and "join ''+'' emails \<noteq> []"
  shows "process_signature fmt srv token year sg (t, w)
         = process_docs fmt srv token year sid created (join ''+'' emails) docs (t, w1)"
proof -
  have "emails \<noteq> []"
    using assms(7) by auto
  moreover have "py_iter (if truthy (JArr docs) then JArr docs else JArr []) = Inr docs"
    by (simp add: py_iter_def truthy_def)
  ultimately show ?thesis
    using assms
    by (simp add: process_signature_def Let_def split del: if_split cong: if_cong)
qed

text \<open>
  The second example: one signature with the signer \<^verbatim>\<open>user@example.com\<close> and two
  documents, both named \<^verbatim>\<open>contract.pdf\<close>, in a new folder.
\<close>

definition pair_document :: "string \<Rightarrow> json" where
  "pair_document did = JObj [(''id'', JStr did), (''file'', JObj [(''name'', JStr ''contract.pdf'')])]"

definition pair_signature :: json where
  "pair_signature =
     JObj [(''id'', JStr ''s3''), (''created_at'', JStr ''2024-05-02''),
           (''signers'', JArr [JObj [(''email'', JStr ''user@example.com'')]]),
           (''documents'', JArr [pair_document ''d1'', pair_document ''d2''])]"

definition pair_server :: server where
  "pair_server history =
     (let u = url (last history)
      in if u = ''https://api.signaturit.com/v3/signatures.json''
         then Inr (json_response (JArr [pair_signature]))
         else if u = ''https://api.signaturit.com/v3/signatures/s3.json''
         then Inr (json_response pair_signature)
         else Inr pdf_response)"

lemma pair_run:
  "map_option (\<lambda>(r, w). (r, map fst (written w), map (\<lambda>row. row ! 6) (ledger w)))
     (main no_repr pair_server example_today (Some ''secret'') 2024 empty_world)
   = Some (Inr \<lparr>downloaded = 2, skipped = 0, failures = 0\<rparr>,
           [''user@example.com_contract.pdf'', ''user@example.com_contract_2.pdf''],
           [''status'', ''downloaded'', ''downloaded''])"
proof -
  let ?t0 = "\<lparr>downloaded = 0, skipped = 0, failures = 0\<rparr>"
  let ?L = "api_request ''/signatures.json'' ''secret''
              (list_params ''2024-01-01'' ''2024-12-31'' 0) False"
  let ?D = "api_request ''/signatures/s3.json'' ''secret'' [] False"
  let ?P1 = "api_request ''/signatures/s3/documents/d1/download/signed'' ''secret'' [] True"
  let ?P2 = "api_request ''/signatures/s3/documents/d2/download/signed'' ''secret'' [] True"
  let ?n1 = "''user@example.com_contract.pdf''" and ?n2 = "''user@example.com_contract_2.pdf''"
  let ?w1 = "empty_world\<lparr>sent := [?L]\<rparr>"
  let ?w2 = "empty_world\<lparr>sent := [?L], entries := {|LOG_NAME|}, ledger := [HEADER]\<rparr>"
  let ?w3 = "empty_world\<lparr>sent := [?L, ?D], entries := {|LOG_NAME|}, ledger := [HEADER]\<rparr>"
  let ?w4 = "empty_world\<lparr>sent := [?L, ?D, ?P1], entries := {|LOG_NAME|}, ledger := [HEADER]\<rparr>"
  let ?row1 = "log_row no_repr 2024 (JStr ''s3'') (JStr ''d1'') ''user@example.com''
                 (JStr ''contract.pdf'') ?n1 (JStr ''2024-05-02'') ''downloaded'' []"
  let ?w5 = "?w4\<lparr>entries := finsert ?n1 (entries ?w4), written := written ?w4 @ [(?n1, ''%PDF-1.4'')],
                 ledger := ledger ?w4 @ [?row1]\<rparr>"
  let ?w6 = "?w5\<lparr>sent := [?L, ?D, ?P1, ?P2]\<rparr>"
  let ?row2 = "log_row no_repr 2024 (JStr ''s3'') (JStr ''d2'') ''user@example.com''
                 (JStr ''contract.pdf'') ?n2 (JStr ''2024-05-02'') ''downloaded'' []"
  let ?w7 = "?w6\<lparr>entries := finsert ?n2 (entries ?w6), written := written ?w6 @ [(?n2, ''%PDF-1.4'')],
                 ledger := ledger ?w6 @ [?row2]\<rparr>"
  have tok: "TOKEN (Some ''secret'') = ''secret''"
    "(''secret'' = [] \<or> contains ''secret'' PLACEHOLDER) = False"
    by code_simp+
  have listing: "fetch_signatures_for_year pair_server example_today ''secret'' 2024 empty_world
      = Some (Inr [pair_signature], ?w1)"
    by code_simp
  have log: "open_log ?w1 = ?w2"
    by code_simp
  have detail: "fetch_signature_detail no_repr pair_server ''secret'' (JStr ''s3'') ?w2
      = (Inr pair_signature, ?w3)"
    by code_simp
  have emails: "extract_emails pair_signature pair_signature = [''user@example.com'']"
    by code_simp
  have names: "doc_names no_repr (pair_document did) = Inr (JStr did, JStr ''contract.pdf'')" for did
    by (simp add: doc_names_def pair_document_def py_get_def dict_get_def truthy_def)
  have safe: "safe_name_of (base_name_of no_repr ''user@example.com'' (JStr ''contract.pdf''))
      = Inr ?n1"
    by code_simp
  have free1: "make_unique_filename (entries ?w3) ?n1 = ?n1"
    by code_simp
  have free2: "make_unique_filename (entries ?w5) ?n1 = ?n2"
    by code_simp
  have get1: "download_signed_pdf no_repr pair_server ''secret'' (JStr ''s3'') (JStr ''d1'') ?w3
      = (Inr ''%PDF-1.4'', ?w4)"
    by code_simp
  have get2: "download_signed_pdf no_repr pair_server ''secret'' (JStr ''s3'') (JStr ''d2'') ?w5
      = (Inr ''%PDF-1.4'', ?w6)"
    by code_simp
  have doc1: "process_doc no_repr pair_server ''secret'' 2024 (JStr ''s3'') (JStr ''2024-05-02'')
      ''user@example.com'' (pair_document ''d1'') (?t0, ?w3) = (Inr (?t0\<lparr>downloaded := 1\<rparr>), ?w5)"
    using process_doc_downloaded [OF names safe free1 get1, of 2024 "JStr ''2024-05-02''" ?t0]
    by simp
  have doc2: "process_doc no_repr pair_server ''secret'' 2024 (JStr ''s3'') (JStr ''2024-05-02'')
      ''user@example.com'' (pair_document ''d2'') (?t0\<lparr>downloaded := 1\<rparr>, ?w5)
      = (Inr (?t0\<lparr>downloaded := 2\<rparr>), ?w7)"
    using process_doc_downloaded [OF names safe free2 get2, of 2024 "JStr ''2024-05-02''"
        "?t0\<lparr>downloaded := 1\<rparr>"]
    by simp
  have docs: "process_docs no_repr pair_server ''secret'' 2024 (JStr ''s3'') (JStr ''2024-05-02'')
      ''user@example.com'' [pair_document ''d1'', pair_document ''d2''] (?t0, ?w3)
      = (Inr (?t0\<lparr>downloaded := 2\<rparr>), ?w7)"
    by (simp only: process_docs.simps doc1 doc2 prod.case sum.case fst_conv snd_conv)
  have sg: "process_signature no_repr pair_server ''secret'' 2024 pair_signature (?t0, ?w2)
      = process_docs no_repr pair_server ''secret'' 2024 (JStr ''s3'') (JStr ''2024-05-02'')
      (join ''+'' [''user@example.com'']) [pair_document ''d1'', pair_document ''d2''] (?t0, ?w3)"
  proof (rule process_signature_with_emails)
    show "pair_signature = JObj [(''id'', JStr ''s3''), (''created_at'', JStr ''2024-05-02''),
           (''signers'', JArr [JObj [(''email'', JStr ''user@example.com'')]]),
           (''documents'', JArr [pair_document ''d1'', pair_document ''d2''])]"
      by (rule pair_signature_def)
    show "fetch_signature_detail no_repr pair_server ''secret'' (JStr ''s3'') ?w2
      = (Inr pair_signature, ?w3)"
      by (rule detail)
    show "extract_emails pair_signature pair_signature = [''user@example.com'']"
      by (rule emails)
  qed (simp_all add: dict_get_def)
  have join1: "join ''+'' [''user@example.com''] = ''user@example.com''"
    by simp
  have "main no_repr pair_server example_today (Some ''secret'') 2024 empty_world
      = Some (Inr (?t0\<lparr>downloaded := 2\<rparr>), ?w7)"
    by (simp only: main_def tok if_False listing option.case prod.case sum.case log
        process_signatures.simps sg join1 docs fst_conv snd_conv)
  then show ?thesis
    by (simp add: empty_world_def log_row_def HEADER_def)
qed


text \<open>
  The third example: the same signature with two documents named \<^verbatim>\<open>notes\<close>.
\<close>

definition notes_document :: "string \<Rightarrow> json" where
  "notes_document did = JObj [(''id'', JStr did), (''file'', JObj [(''name'', JStr ''notes'')])]"

definition notes_signature :: json where
  "notes_signature =
     JObj [(''id'', JStr ''s4''), (''created_at'', JStr ''2024-05-02''),
           (''signers'', JArr [JObj [(''email'', JStr ''user@example.com'')]]),
           (''documents'', JArr [notes_document ''d1'', notes_document ''d2''])]"

definition notes_server :: server where
  "notes_server history =
     (let u = url (last history)
      in if u = ''https://api.signaturit.com/v3/signatures.json''
         then Inr (json_response (JArr [notes_signature]))
         else if u = ''https://api.signaturit.com/v3/signatures/s4.json''
         then Inr (json_response notes_signature)
         else Inr pdf_response)"

text \<open>
  Claim C8. The base name is built as the claim says, and \<^verbatim>\<open>.pdf\<close> is appended when
  \<^verbatim>\<open>os.path.splitext\<close> finds no extension in the sanitized name. That test comes after
  the emails are put in front, so the dot of an email address counts as the start of an
  extension: a document named \<^verbatim>\<open>notes\<close> is saved as \<^verbatim>\<open>notes.pdf\<close> when no email was found,
  and without \<^verbatim>\<open>.pdf\<close> when one was. On one signature with the signer
  \<^verbatim>\<open>user@example.com\<close> and two documents named \<^verbatim>\<open>notes\<close>, in a new folder, the run
  downloads both, the first as \<^verbatim>\<open>user@example.com_notes\<close> and the second as
  \<^verbatim>\<open>user@example_2.com_notes\<close>: neither ends in \<^verbatim>\<open>.pdf\<close>, and the counter of the
  second stands inside the address.
\<close>

theorem email_prefix_hides_missing_extension:
  "map_option (\<lambda>(r, w). (r, map fst (written w), map (\<lambda>row. (row ! 3, row ! 6)) (ledger w)))
     (main no_repr notes_server example_today (Some ''secret'') 2024 empty_world)
   = Some (Inr \<lparr>downloaded = 2, skipped = 0, failures = 0\<rparr>,
           [''user@example.com_notes'', ''user@example_2.com_notes''],
           [(''original_filename'', ''status''), (''notes'', ''downloaded''),
            (''notes'', ''downloaded'')])
   \<and> safe_name_of (base_name_of no_repr [] (JStr ''notes'')) = Inr ''notes.pdf''"
proof -
  let ?t0 = "\<lparr>downloaded = 0, skipped = 0, failures = 0\<rparr>"
  let ?L = "api_request ''/signatures.json'' ''secret''
              (list_params ''2024-01-01'' ''2024-12-31'' 0) False"
  let ?D = "api_request ''/signatures/s4.json'' ''secret'' [] False"
  let ?P1 = "api_request ''/signatures/s4/documents/d1/download/signed'' ''secret'' [] True"
  let ?P2 = "api_request ''/signatures/s4/documents/d2/download/signed'' ''secret'' [] True"
  let ?n1 = "''user@example.com_notes''" and ?n2 = "''user@example_2.com_notes''"
  let ?w1 = "empty_world\<lparr>sent := [?L]\<rparr>"
  let ?w2 = "empty_world\<lparr>sent := [?L], entries := {|LOG_NAME|}, ledger := [HEADER]\<rparr>"
  let ?w3 = "empty_world\<lparr>sent := [?L, ?D], entries := {|LOG_NAME|}, ledger := [HEADER]\<rparr>"
  let ?w4 = "empty_world\<lparr>sent := [?L, ?D, ?P1], entries := {|LOG_NAME|}, ledger := [HEADER]\<rparr>"
  let ?row1 = "log_row no_repr 2024 (JStr ''s4'') (JStr ''d1'') ''user@example.com''
                 (JStr ''notes'') ?n1 (JStr ''2024-05-02'') ''downloaded'' []"
  let ?w5 = "?w4\<lparr>entries := finsert ?n1 (entries ?w4), written := written ?w4 @ [(?n1, ''%PDF-1.4'')],
                 ledger := ledger ?w4 @ [?row1]\<rparr>"
  let ?w6 = "?w5\<lparr>sent := [?L, ?D, ?P1, ?P2]\<rparr>"
  let ?row2 = "log_row no_repr 2024 (JStr ''s4'') (JStr ''d2'') ''user@example.com''
                 (JStr ''notes'') ?n2 (JStr ''2024-05-02'') ''downloaded'' []"
  let ?w7 = "?w6\<lparr>entries := finsert ?n2 (entries ?w6), written := written ?w6 @ [(?n2, ''%PDF-1.4'')],
                 ledger := ledger ?w6 @ [?row2]\<rparr>"
  have tok: "TOKEN (Some ''secret'') = ''secret''"
    "(''secret'' = [] \<or> contains ''secret'' PLACEHOLDER) = False"
    by code_simp+
  have listing: "fetch_signatures_for_year notes_server example_today ''secret'' 2024 empty_world
      = Some (Inr [notes_signature], ?w1)"
    by code_simp
  have log: "open_log ?w1 = ?w2"
    by code_simp
  have detail: "fetch_signature_detail no_repr notes_server ''secret'' (JStr ''s4'') ?w2
      = (Inr notes_signature, ?w3)"
    by code_simp
  have emails: "extract_emails notes_signature notes_signature = [''user@example.com'']"
    by code_simp
  have names: "doc_names no_repr (notes_document did) = Inr (JStr did, JStr ''notes'')" for did
    by (simp add: doc_names_def notes_document_def py_get_def dict_get_def truthy_def)
  have safe: "safe_name_of (base_name_of no_repr ''user@example.com'' (JStr ''notes''))
      = Inr ?n1"
    by code_simp
  have free1: "make_unique_filename (entries ?w3) ?n1 = ?n1"
    by code_simp
  have free2: "make_unique_filename (entries ?w5) ?n1 = ?n2"
    by code_simp
  have get1: "download_signed_pdf no_repr notes_server ''secret'' (JStr ''s4'') (JStr ''d1'') ?w3
      = (Inr ''%PDF-1.4'', ?w4)"
    by code_simp
  have get2: "download_signed_pdf no_repr notes_server ''secret'' (JStr ''s4'') (JStr ''d2'') ?w5
      = (Inr ''%PDF-1.4'', ?w6)"
    by code_simp
  have doc1: "process_doc no_repr notes_server ''secret'' 2024 (JStr ''s4'') (JStr ''2024-05-02'')
      ''user@example.com'' (notes_document ''d1'') (?t0, ?w3) = (Inr (?t0\<lparr>downloaded := 1\<rparr>), ?w5)"
    using process_doc_downloaded [OF names safe free1 get1, of 2024 "JStr ''2024-05-02''" ?t0]
    by simp
  have doc2: "process_doc no_repr notes_server ''secret'' 2024 (JStr ''s4'') (JStr ''2024-05-02'')
      ''user@example.com'' (notes_document ''d2'') (?t0\<lparr>downloaded := 1\<rparr>, ?w5)
      = (Inr (?t0\<lparr>downloaded := 2\<rparr>), ?w7)"
    using process_doc_downloaded [OF names safe free2 get2, of 2024 "JStr ''2024-05-02''"
        "?t0\<lparr>downloaded := 1\<rparr>"]
    by simp
  have docs: "process_docs no_repr notes_server ''secret'' 2024 (JStr ''s4'') (JStr ''2024-05-02'')
      ''user@example.com'' [notes_document ''d1'', notes_document ''d2''] (?t0, ?w3)
      = (Inr (?t0\<lparr>downloaded := 2\<rparr>), ?w7)"
    by (simp only: process_docs.simps doc1 doc2 prod.case sum.case fst_conv snd_conv)
  have sg: "process_signature no_repr notes_server ''secret'' 2024 notes_signature (?t0, ?w2)
      = process_docs no_repr notes_server ''secret'' 2024 (JStr ''s4'') (JStr ''2024-05-02'')
      (join ''+'' [''user@example.com'']) [notes_document ''d1'', notes_document ''d2''] (?t0, ?w3)"
  proof (rule process_signature_with_emails)
    show "notes_signature = JObj [(''id'', JStr ''s4''), (''created_at'', JStr ''2024-05-02''),
           (''signers'', JArr [JObj [(''email'', JStr ''user@example.com'')]]),
           (''documents'', JArr [notes_document ''d1'', notes_document ''d2''])]"
      by (rule notes_signature_def)
    show "fetch_signature_detail no_repr notes_server ''secret'' (JStr ''s4'') ?w2
      = (Inr notes_signature, ?w3)"
      by (rule detail)
    show "extract_emails notes_signature notes_signature = [''user@example.com'']"
      by (rule emails)
  qed (simp_all add: dict_get_def)
  have join1: "join ''+'' [''user@example.com''] = ''user@example.com''"
    by simp
  have "main no_repr notes_server example_today (Some ''secret'') 2024 empty_world
      = Some (Inr (?t0\<lparr>downloaded := 2\<rparr>), ?w7)"
    by (simp only: main_def tok if_False listing option.case prod.case sum.case log
        process_signatures.simps sg join1 docs fst_conv snd_conv)
  moreover have "safe_name_of (base_name_of no_repr [] (JStr ''notes'')) = Inr ''notes.pdf''"
    by code_simp
  ultimately show ?thesis
    by (simp add: empty_world_def log_row_def HEADER_def csv_cell_def py_str_def)
qed

end
